theory Spec2Isabelle
  imports Main
begin

section \<open>JavaScript values and strings\<close>

text \<open>
  The copyright checker of \<^verbatim>\<open>content.js\<close> (lines 1095 to 1579) is embedded here.
  A JavaScript string is a \<^typ>\<open>string\<close>; a \<^typ>\<open>char\<close> stands for a UTF-16 code unit
  below 256. A property that may be missing or \<^verbatim>\<open>null\<close> is a \<open>'a js\<close>: the two empty
  values differ in how a template literal prints them and under \<^verbatim>\<open>===\<close>.
\<close>

datatype 'a js = Undefined | Null | Val 'a

text \<open>Truthiness of a string-valued and of a boolean-valued property.\<close>

fun truthy :: "string js \<Rightarrow> bool" where
  "truthy (Val s) = (s \<noteq> [])"
| "truthy _ = False"

fun truthy_bool :: "bool js \<Rightarrow> bool" where
  "truthy_bool (Val b) = b"
| "truthy_bool _ = False"

text \<open>What a template literal \<^verbatim>\<open>`${x}`\<close> prints.\<close>

fun render :: "string js \<Rightarrow> string" where
  "render Undefined = ''undefined''"
| "render Null = ''null''"
| "render (Val s) = s"

text \<open>An exception value: its \<^verbatim>\<open>name\<close> and its \<^verbatim>\<open>message\<close>.\<close>

datatype js_error = JsError (err_name: string) (err_message: string)

text \<open>
  The exception of reading the property \<open>prop\<close> of \<^verbatim>\<open>null\<close> or \<^verbatim>\<open>undefined\<close>; \<open>v\<close> is
  how the value prints.
\<close>

definition cannot_read :: "string \<Rightarrow> string \<Rightarrow> js_error" where
  "cannot_read v prop =
     JsError ''TypeError''
       (''Cannot read properties of '' @ v @ '' (reading '' @ [CHR 0x27] @ prop @ [CHR 0x27] @
        '')'')"

definition is_digit :: "char \<Rightarrow> bool" where
  "is_digit c = (let n = (of_char c :: nat) in 48 \<le> n \<and> n \<le> 57)"

text \<open>White space and line terminators (\<^verbatim>\<open>\s\<close>, and what \<^verbatim>\<open>trim\<close> removes), below 256.\<close>

definition is_space :: "char \<Rightarrow> bool" where
  "is_space c = ((of_char c :: nat) \<in> {9, 10, 11, 12, 13, 32, 160})"

text \<open>\<^verbatim>\<open>String.prototype.toLowerCase\<close> on code units below 256.\<close>

definition lower_char :: "char \<Rightarrow> char" where
  "lower_char c =
     (let n = (of_char c :: nat)
      in if (65 \<le> n \<and> n \<le> 90) \<or> (192 \<le> n \<and> n \<le> 222 \<and> n \<noteq> 215)
         then char_of (n + 32) else c)"

definition toLowerCase :: "string \<Rightarrow> string" where
  "toLowerCase s = map lower_char s"

definition trim :: "string \<Rightarrow> string" where
  "trim s = rev (dropWhile is_space (rev (dropWhile is_space s)))"

fun startsWith :: "string \<Rightarrow> string \<Rightarrow> bool" where
  "startsWith s [] = True"
| "startsWith [] (p # ps) = False"
| "startsWith (c # cs) (p # ps) = (c = p \<and> startsWith cs ps)"

text \<open>\<^verbatim>\<open>s.includes(t)\<close>: \<open>t\<close> occurs in \<open>s\<close> as a contiguous substring.\<close>

fun includes_str :: "string \<Rightarrow> string \<Rightarrow> bool" where
  "includes_str [] t = (t = [])"
| "includes_str (c # cs) t = (startsWith (c # cs) t \<or> includes_str cs t)"

section \<open>Regular expressions\<close>

text \<open>
  The regular expression literals of the checker, as data, and a backtracking matcher that
  tries the alternatives in the order the language fixes: an earlier start before a later
  one, a greedy quantifier the longer run first, a lazy one the shorter run first.
  \<open>Atom c (Greedy n)\<close> is \<^verbatim>\<open>c{n,}\<close> (so \<^verbatim>\<open>c*\<close> and \<^verbatim>\<open>c+\<close> are \<open>Greedy 0\<close> and
  \<open>Greedy 1\<close>), \<open>Atom c (Lazy 1)\<close> is \<^verbatim>\<open>c+?\<close>; \<open>GroupOpen\<close> and \<open>GroupClose\<close> are the
  parentheses of the capture group.
\<close>

datatype rx_item = C char | D | S

datatype rx_class = One rx_item | AnyOf "rx_item list" | NoneOf "rx_item list"

datatype rx_quant = Once | Greedy nat | Lazy nat

datatype rx = Atom rx_class rx_quant | GroupOpen | GroupClose | Bol | Eol | WordB | Alt "string list"

text \<open>A run of literal characters.\<close>

definition lit :: "string \<Rightarrow> rx list" where
  "lit s = map (\<lambda>c. Atom (One (C c)) Once) s"

text \<open>
  Under the flag \<^verbatim>\<open>i\<close> two characters are compared by their upper case. The patterns
  hold ASCII characters only, and no other character has an ASCII upper case, so only the
  ASCII letters are mapped.
\<close>

definition rx_canon :: "char \<Rightarrow> char" where
  "rx_canon c =
     (let n = (of_char c :: nat) in if 97 \<le> n \<and> n \<le> 122 then char_of (n - 32) else c)"

fun item_ok :: "bool \<Rightarrow> rx_item \<Rightarrow> char \<Rightarrow> bool" where
  "item_ok ic (C p) x = (if ic then rx_canon p = rx_canon x else p = x)"
| "item_ok ic D x = is_digit x"
| "item_ok ic S x = is_space x"

fun class_ok :: "bool \<Rightarrow> rx_class \<Rightarrow> char \<Rightarrow> bool" where
  "class_ok ic (One i) x = item_ok ic i x"
| "class_ok ic (AnyOf is) x = list_ex (\<lambda>i. item_ok ic i x) is"
| "class_ok ic (NoneOf is) x = (\<not> list_ex (\<lambda>i. item_ok ic i x) is)"

text \<open>
  \<^verbatim>\<open>\b\<close>: exactly one of the character before and the character after is a word
  character; the ends of the input count as no word character.
\<close>

definition is_word :: "char \<Rightarrow> bool" where
  "is_word c =
     (let n = (of_char c :: nat)
      in (48 \<le> n \<and> n \<le> 57) \<or> (65 \<le> n \<and> n \<le> 90) \<or> (97 \<le> n \<and> n \<le> 122) \<or> n = 95)"

definition at_word_boundary :: "char option \<Rightarrow> string \<Rightarrow> bool" where
  "at_word_boundary prev rest =
     ((case prev of None \<Rightarrow> False | Some c \<Rightarrow> is_word c) \<noteq>
      (case rest of [] \<Rightarrow> False | x # xs \<Rightarrow> is_word x))"

text \<open>The size of an item, for the termination of the matcher.\<close>

fun rx_size :: "rx \<Rightarrow> nat" where
  "rx_size (Alt alts) = Suc (sum_list (map (\<lambda>a. Suc (length a)) alts))"
| "rx_size r = 1"

text \<open>
  \<open>rx_run ic rs prev pos rest g\<close> matches the items \<open>rs\<close> against \<open>rest\<close>, the input from
  offset \<open>pos\<close> on; \<open>prev\<close> is the character before it and \<open>g\<close> holds the offsets of the
  capture group so far. It returns the offset where the match ends, and the group.
  \<open>Alt [a, b]\<close> is \<^verbatim>\<open>(?:a|b)\<close> for two literal texts: the first is tried with all that
  follows before the second.
\<close>

type_synonym rx_group = "nat option \<times> nat option"

function rx_run ::
  "bool \<Rightarrow> rx list \<Rightarrow> char option \<Rightarrow> nat \<Rightarrow> string \<Rightarrow> rx_group \<Rightarrow> (nat \<times> rx_group) option" where
  "rx_run ic [] prev pos rest g = Some (pos, g)"
| "rx_run ic (GroupOpen # rs) prev pos rest g = rx_run ic rs prev pos rest (Some pos, snd g)"
| "rx_run ic (GroupClose # rs) prev pos rest g = rx_run ic rs prev pos rest (fst g, Some pos)"
| "rx_run ic (Bol # rs) prev pos rest g =
     (if pos = 0 then rx_run ic rs prev pos rest g else None)"
| "rx_run ic (Eol # rs) prev pos rest g =
     (if rest = [] then rx_run ic rs prev pos rest g else None)"
| "rx_run ic (WordB # rs) prev pos rest g =
     (if at_word_boundary prev rest then rx_run ic rs prev pos rest g else None)"
| "rx_run ic (Alt [] # rs) prev pos rest g = None"
| "rx_run ic (Alt (a # as) # rs) prev pos rest g =
     (case rx_run ic (lit a @ rs) prev pos rest g of
        Some r \<Rightarrow> Some r
      | None \<Rightarrow> rx_run ic (Alt as # rs) prev pos rest g)"
| "rx_run ic (Atom c Once # rs) prev pos [] g = None"
| "rx_run ic (Atom c Once # rs) prev pos (x # xs) g =
     (if class_ok ic c x then rx_run ic rs (Some x) (Suc pos) xs g else None)"
| "rx_run ic (Atom c (Greedy n) # rs) prev pos [] g =
     (if n = 0 then rx_run ic rs prev pos [] g else None)"
| "rx_run ic (Atom c (Greedy n) # rs) prev pos (x # xs) g =
     (if class_ok ic c x
      then (if n = 0
            then (case rx_run ic (Atom c (Greedy 0) # rs) (Some x) (Suc pos) xs g of
                    Some r \<Rightarrow> Some r
                  | None \<Rightarrow> rx_run ic rs prev pos (x # xs) g)
            else rx_run ic (Atom c (Greedy (n - 1)) # rs) (Some x) (Suc pos) xs g)
      else (if n = 0 then rx_run ic rs prev pos (x # xs) g else None))"
| "rx_run ic (Atom c (Lazy n) # rs) prev pos [] g =
     (if n = 0 then rx_run ic rs prev pos [] g else None)"
| "rx_run ic (Atom c (Lazy n) # rs) prev pos (x # xs) g =
     (if n = 0
      then (case rx_run ic rs prev pos (x # xs) g of
              Some r \<Rightarrow> Some r
            | None \<Rightarrow>
                (if class_ok ic c x
                 then rx_run ic (Atom c (Lazy 0) # rs) (Some x) (Suc pos) xs g
                 else None))
      else (if class_ok ic c x
            then rx_run ic (Atom c (Lazy (n - 1)) # rs) (Some x) (Suc pos) xs g
            else None))"
  by pat_completeness auto
termination
proof (relation "measures [\<lambda>(ic, rs, prev, pos, rest, g). length rest,
                           \<lambda>(ic, rs, prev, pos, rest, g). sum_list (map rx_size rs)]")
  have lit_size: "sum_list (map rx_size (lit a)) = length a" for a
    by (induction a) (simp_all add: lit_def)
  show "((ic, lit a @ rs, prev, pos, rest, g), (ic, Alt (a # as) # rs, prev, pos, rest, g))
          \<in> measures [\<lambda>(ic, rs, prev, pos, rest, g). length rest,
                       \<lambda>(ic, rs, prev, pos, rest, g). sum_list (map rx_size rs)]"
    for ic a rs prev pos rest g as
    by (simp add: lit_size)
qed auto

text \<open>The leftmost start at which the items match.\<close>

fun rx_search ::
  "bool \<Rightarrow> rx list \<Rightarrow> char option \<Rightarrow> nat \<Rightarrow> string \<Rightarrow> (nat \<times> nat \<times> rx_group) option" where
  "rx_search ic rs prev pos rest =
     (case rx_run ic rs prev pos rest (None, None) of
        Some (e, g) \<Rightarrow> Some (pos, e, g)
      | None \<Rightarrow> (case rest of [] \<Rightarrow> None | x # xs \<Rightarrow> rx_search ic rs (Some x) (Suc pos) xs))"

definition substring :: "string \<Rightarrow> nat \<Rightarrow> nat \<Rightarrow> string" where
  "substring s a b = take (b - a) (drop a s)"

text \<open>
  \<^verbatim>\<open>s.match(re)\<close> for a regular expression without the flag \<^verbatim>\<open>g\<close>: \<^verbatim>\<open>null\<close>, or the
  matched text \<^verbatim>\<open>m[0]\<close> and the capture group \<^verbatim>\<open>m[1]\<close>.
\<close>

definition js_match :: "bool \<Rightarrow> rx list \<Rightarrow> string \<Rightarrow> (string \<times> string js) option" where
  "js_match ic rs s =
     (case rx_search ic rs None 0 s of
        None \<Rightarrow> None
      | Some (a, b, g) \<Rightarrow>
          Some (substring s a b,
                (case g of (Some ga, Some gb) \<Rightarrow> Val (substring s ga gb) | _ \<Rightarrow> Undefined)))"

text \<open>\<^verbatim>\<open>re.test(s)\<close>.\<close>

definition js_test :: "bool \<Rightarrow> rx list \<Rightarrow> string \<Rightarrow> bool" where
  "js_test ic rs s = (rx_search ic rs None 0 s \<noteq> None)"

text \<open>\<^verbatim>\<open>s.replace(re, '')\<close> without the flag \<^verbatim>\<open>g\<close>: the first match is cut out.\<close>

definition js_remove_first :: "bool \<Rightarrow> rx list \<Rightarrow> string \<Rightarrow> string" where
  "js_remove_first ic rs s =
     (case rx_search ic rs None 0 s of
        None \<Rightarrow> s
      | Some (a, b, g) \<Rightarrow> take a s @ drop b s)"

declare rx_search.simps [simp del]

section \<open>The environment and the state\<close>

text \<open>
  What the checker reads from outside is a record \<open>env\<close>: the dataset file
  \<^verbatim>\<open>academic_dblist.json\<close> (\<open>Inl\<close> when fetching or parsing it throws), the answers of
  the network, the browser's URL parser, the clock at the lookup and at the write of a
  cache entry, and whether a call to \<^verbatim>\<open>chrome.storage.local\<close> rejects. What it changes is
  a record \<open>world\<close>: the three lists of \<^verbatim>\<open>academicDatabases\<close>, the extension's storage
  and the trace of the calls that left the page. A domain entry, and every property of
  the page data and of a registry answer, holds a value of its declared type or is
  missing.
\<close>

text \<open>What \<^verbatim>\<open>new URL(u)\<close> gives: the host name and \<^verbatim>\<open>searchParams.get('doi')\<close>.\<close>

record url_obj =
  hostname :: string
  doi_param :: "string js"

text \<open>The body of a registry answer, after \<^verbatim>\<open>response.json()\<close>.\<close>

record oa_location =
  loc_url :: "string js"
  loc_host_type :: "string js"
  loc_version :: "string js"
  loc_license :: "string js"

record unpaywall_data =
  up_doi :: "string js"
  up_is_oa :: "bool js"
  up_oa_status :: "string js"
  best_oa_location :: "oa_location js"

record http_response =
  resp_status :: nat
  resp_json :: "js_error + unpaywall_data js"

datatype fetch_outcome = Rejected js_error | Resolved http_response

text \<open>\<^verbatim>\<open>response.ok\<close>: the status is in the range 200 to 299.\<close>

definition response_ok :: "http_response \<Rightarrow> bool" where
  "response_ok r = (200 \<le> resp_status r \<and> resp_status r \<le> 299)"

text \<open>The dataset document, as far as \<^verbatim>\<open>loadAcademicDatabases\<close> reads it.\<close>

record allowlist_doc =
  preprint_servers :: "string list option"
  open_access_publishers :: "string list option"
  open_access_repositories :: "string list option"
  institutional_repositories :: "string list option"

datatype subcategory = SubArray "string list" | SubOther

datatype bl_category = CatArray "string list" | CatObject "subcategory list" | CatNull | CatOther

record dataset_doc =
  allowlist :: "allowlist_doc option"
  blacklist_doc :: "bl_category list option"
  conditional_mixed_content :: "string list option"

text \<open>The record the resolver returns and caches.\<close>

record oa_record =
  oa_doi :: "string js"
  is_oa :: "bool js"
  oa_status :: "string js"
  oa_url :: "string js"
  host_type :: "string js"
  version :: "string js"
  license :: "string js"
  oa_error :: "string js"

definition oa_none :: oa_record where
  "oa_none = \<lparr>oa_doi = Undefined, is_oa = Undefined, oa_status = Undefined, oa_url = Undefined,
     host_type = Undefined, version = Undefined, license = Undefined, oa_error = Undefined\<rparr>"

record cache_entry =
  ce_data :: oa_record
  ce_timestamp :: int

datatype event =
  StorageGet string | StorageRemove string | StorageSet string | FetchRegistry string | FetchDataset

record env =
  dataset :: "js_error + dataset_doc"
  fetch :: "string \<Rightarrow> fetch_outcome"
  new_URL :: "string \<Rightarrow> js_error + url_obj"
  now_read :: int
  now_write :: int
  storage_get_fails :: bool
  storage_remove_fails :: bool
  storage_set_fails :: bool

record world =
  whitelist :: "string list"
  blacklist :: "string list"
  conditional :: "string list"
  storage :: "string \<rightharpoonup> cache_entry"
  trace :: "event list"

definition emit :: "event \<Rightarrow> world \<Rightarrow> world" where
  "emit ev w = w\<lparr>trace := trace w @ [ev]\<rparr>"

text \<open>The events a call adds to the trace, and the two kinds the claims speak of.\<close>

definition new_events :: "world \<Rightarrow> world \<Rightarrow> event list" where
  "new_events w w' = drop (length (trace w)) (trace w')"

fun is_cache_write :: "event \<Rightarrow> bool" where
  "is_cache_write (StorageSet k) = True"
| "is_cache_write _ = False"

fun is_registry_call :: "event \<Rightarrow> bool" where
  "is_registry_call (FetchRegistry u) = True"
| "is_registry_call _ = False"

section \<open>Configuration and the domain classifier\<close>

definition UNPAYWALL_API :: string where
  "UNPAYWALL_API = ''https://api.unpaywall.org/v2''"

definition UNPAYWALL_EMAIL :: string where
  "UNPAYWALL_EMAIL = ''wangzifeng157@gmail.com''"

definition CACHE_DURATION :: int where
  "CACHE_DURATION = 30 * 24 * 60 * 60 * 1000"

text \<open>The inner loop over the values of a category object: only arrays are pushed.\<close>

fun push_subcategories :: "subcategory list \<Rightarrow> string list \<Rightarrow> string list" where
  "push_subcategories [] acc = acc"
| "push_subcategories (SubArray xs # ss) acc = push_subcategories ss (acc @ xs)"
| "push_subcategories (SubOther # ss) acc = push_subcategories ss acc"

text \<open>
  The loop over the values of \<^verbatim>\<open>data.blacklist\<close>. A \<^verbatim>\<open>null\<close> category has type
  \<^verbatim>\<open>'object'\<close>, so \<^verbatim>\<open>Object.values\<close> throws on it: the loop stops (\<open>False\<close>) with the
  domains pushed so far.
\<close>

fun flatten_blacklist :: "bl_category list \<Rightarrow> string list \<Rightarrow> bool \<times> string list" where
  "flatten_blacklist [] acc = (True, acc)"
| "flatten_blacklist (CatArray xs # cs) acc = flatten_blacklist cs (acc @ xs)"
| "flatten_blacklist (CatObject ss # cs) acc = flatten_blacklist cs (push_subcategories ss acc)"
| "flatten_blacklist (CatNull # cs) acc = (False, acc)"
| "flatten_blacklist (CatOther # cs) acc = flatten_blacklist cs acc"

text \<open>
  \<^verbatim>\<open>loadAcademicDatabases\<close>: every exception is caught and gives \<^verbatim>\<open>false\<close>; the lists
  assigned before the exception keep their new values.
\<close>

definition loadAcademicDatabases :: "env \<Rightarrow> world \<Rightarrow> bool \<times> world" where
  "loadAcademicDatabases e w =
     (let w0 = emit FetchDataset w in
      case dataset e of
        Inl err \<Rightarrow> (False, w0)
      | Inr d \<Rightarrow>
          (case allowlist d of
             None \<Rightarrow> (False, w0)
           | Some al \<Rightarrow>
               (case (preprint_servers al, open_access_publishers al,
                      open_access_repositories al, institutional_repositories al) of
                  (Some a, Some b, Some c, Some i) \<Rightarrow>
                    (let w1 = w0\<lparr>whitelist := a @ b @ c @ i\<rparr> in
                     case blacklist_doc d of
                       None \<Rightarrow> (False, w1\<lparr>blacklist := []\<rparr>)
                     | Some cats \<Rightarrow>
                         (case flatten_blacklist cats [] of
                            (False, bl) \<Rightarrow> (False, w1\<lparr>blacklist := bl\<rparr>)
                          | (True, bl) \<Rightarrow>
                              (True, w1\<lparr>blacklist := bl,
                                 conditional :=
                                   (case conditional_mixed_content d of
                                      None \<Rightarrow> [] | Some m \<Rightarrow> m)\<rparr>)))
                | _ \<Rightarrow> (False, w0))))"

text \<open>The three classifiers read one list of \<^verbatim>\<open>academicDatabases\<close> each.\<close>

definition domain_in :: "string list \<Rightarrow> string \<Rightarrow> bool" where
  "domain_in entries domain =
     (if domain = [] then False
      else (let lowerDomain = toLowerCase domain
            in list_ex (\<lambda>entry. includes_str lowerDomain (toLowerCase entry)) entries))"

definition isWhitelisted :: "world \<Rightarrow> string \<Rightarrow> bool" where
  "isWhitelisted w domain = domain_in (whitelist w) domain"

definition isBlacklisted :: "world \<Rightarrow> string \<Rightarrow> bool" where
  "isBlacklisted w domain = domain_in (blacklist w) domain"

definition isConditional :: "world \<Rightarrow> string \<Rightarrow> bool" where
  "isConditional w domain = domain_in (conditional w) domain"

section \<open>DOI from a PDF address\<close>

text \<open>\<^verbatim>\<open>/\/([10]\.\d{4,}\/[^\s]+?)\.pdf/i\<close>\<close>

definition doiInPath_rx :: "rx list" where
  "doiInPath_rx =
     lit ''/'' @ [GroupOpen, Atom (AnyOf [C CHR ''1'', C CHR ''0'']) Once] @ lit ''.'' @
     [Atom (One D) (Greedy 4)] @ lit ''/'' @ [Atom (NoneOf [S]) (Lazy 1), GroupClose] @
     lit ''.pdf''"

text \<open>\<^verbatim>\<open>/(10\.\d{4,}\/[^\s\/]+)/\<close>\<close>

definition springer_rx :: "rx list" where
  "springer_rx =
     [GroupOpen] @ lit ''10.'' @ [Atom (One D) (Greedy 4)] @ lit ''/'' @
     [Atom (NoneOf [S, C CHR ''/'']) (Greedy 1), GroupClose]"

text \<open>\<^verbatim>\<open>/arxiv\.org\/pdf\/(\d+\.\d+)/i\<close>\<close>

definition arxiv_rx :: "rx list" where
  "arxiv_rx =
     lit ''arxiv.org/pdf/'' @ [GroupOpen, Atom (One D) (Greedy 1)] @ lit ''.'' @
     [Atom (One D) (Greedy 1), GroupClose]"

text \<open>
  \<^verbatim>\<open>extractDOIFromPDFUrl\<close>. The result is \<^verbatim>\<open>null\<close> or a string. An exception of
  \<^verbatim>\<open>new URL\<close> is caught and gives \<^verbatim>\<open>null\<close>.
\<close>

definition extractDOIFromPDFUrl :: "env \<Rightarrow> string js \<Rightarrow> string js" where
  "extractDOIFromPDFUrl e url =
     (if \<not> truthy url then Null
      else (let u = render url in
        case js_match True doiInPath_rx u of
          Some doiInPath \<Rightarrow> snd doiInPath
        | None \<Rightarrow>
            (case js_match False springer_rx u of
               Some springerMatch \<Rightarrow> snd springerMatch
             | None \<Rightarrow>
                 (case js_match True arxiv_rx u of
                    Some arxivMatch \<Rightarrow> Val (''10.48550/arXiv.'' @ render (snd arxivMatch))
                  | None \<Rightarrow>
                      (case new_URL e u of
                         Inl err \<Rightarrow> Null
                       | Inr urlObj \<Rightarrow>
                           (let doiParam = doi_param urlObj
                            in if truthy doiParam then doiParam else Null))))))"

section \<open>Normalising a DOI\<close>

text \<open>
  \<^verbatim>\<open>x.replace(/^doi:\s*/i, '').trim()\<close>, which the resolver applies to its argument and the
  page extractor to the content of a meta tag.
\<close>

definition doi_prefix_rx :: "rx list" where
  "doi_prefix_rx = [Bol] @ lit ''doi:'' @ [Atom (One S) (Greedy 0)]"

definition cleanDOI_of :: "string \<Rightarrow> string" where
  "cleanDOI_of doi = trim (js_remove_first True doi_prefix_rx doi)"

section \<open>DOI from the page\<close>

text \<open>
  What \<^verbatim>\<open>extractDOINonDestructive\<close> reads from the document, in the order it reads it: the
  \<^verbatim>\<open>content\<close> of the first citation meta tag (\<open>None\<close> when no tag matches), the JSON-LD
  scripts (each one parsed, or the exception of \<^verbatim>\<open>JSON.parse\<close>), the \<^verbatim>\<open>content\<close> of the
  first prism meta tag, the texts of the elements the DOI selectors find (selector by
  selector), the \<^verbatim>\<open>href\<close> of the links to \<^verbatim>\<open>doi.org\<close>, the text of the body, the address
  of the page and the \<^verbatim>\<open>content\<close> of the arXiv meta tag.
\<close>

text \<open>
  A parsed JSON value; the properties of an object have distinct names. Of a number the
  extractor only tests whether it is zero.
\<close>

datatype json =
  JNull | JBool bool | JNum int | JStr string | JArr "json list" | JObj "(string \<times> json) list"

record document =
  citation_doi_meta :: "string option"
  jsonld_scripts :: "(js_error + json) list"
  prism_doi_meta :: "string option"
  doi_element_texts :: "string list"
  doi_link_hrefs :: "string list"
  body_text :: string
  location_href :: string
  citation_arxiv_id_meta :: "string option"

text \<open>A property of a value that is not \<^verbatim>\<open>null\<close>; only an object has the ones read here.\<close>

fun json_prop :: "json \<Rightarrow> string \<Rightarrow> json option" where
  "json_prop (JObj kvs) key = map_of kvs key"
| "json_prop v key = None"

fun json_truthy :: "json option \<Rightarrow> bool" where
  "json_truthy None = False"
| "json_truthy (Some JNull) = False"
| "json_truthy (Some (JBool b)) = b"
| "json_truthy (Some (JNum n)) = (n \<noteq> 0)"
| "json_truthy (Some (JStr s)) = (s \<noteq> [])"
| "json_truthy (Some v) = True"

text \<open>\<^verbatim>\<open>v && typeof v === 'string'\<close>\<close>

fun json_string :: "json option \<Rightarrow> string option" where
  "json_string (Some (JStr s)) = (if s \<noteq> [] then Some s else None)"
| "json_string v = None"

text \<open>
  \<^verbatim>\<open>if (v && v.startsWith('10.')) return v\<close>: a truthy value that is no string has no method
  \<^verbatim>\<open>startsWith\<close>, and the call throws (the message is only logged). \<open>Inr None\<close> goes on.
\<close>

fun starts_with_10 :: "json option \<Rightarrow> js_error + string option" where
  "starts_with_10 (Some (JStr s)) =
     Inr (if s \<noteq> [] \<and> startsWith s ''10.'' then Some s else None)"
| "starts_with_10 v =
     (if json_truthy v then Inl (JsError ''TypeError'' ''startsWith is not a function'')
      else Inr None)"

text \<open>The block \<^verbatim>\<open>if (obj.identifier) { ... }\<close>; an array is an object without these properties.\<close>

fun identifier_doi :: "json option \<Rightarrow> js_error + string option" where
  "identifier_doi (Some (JStr s)) = Inr (if startsWith s ''10.'' then Some s else None)"
| "identifier_doi (Some (JObj kvs)) =
     (case starts_with_10 (map_of kvs ''value'') of
        Inl err \<Rightarrow> Inl err
      | Inr (Some s) \<Rightarrow> Inr (Some s)
      | Inr None \<Rightarrow> starts_with_10 (map_of kvs ''@value''))"
| "identifier_doi v = Inr None"

text \<open>\<^verbatim>\<open>/10\.\d{4,}\/[^\s]+/\<close>\<close>

definition doi_text_rx :: "rx list" where
  "doi_text_rx =
     lit ''10.'' @ [Atom (One D) (Greedy 4)] @ lit ''/'' @ [Atom (NoneOf [S]) (Greedy 1)]"

text \<open>The validation pattern \<^verbatim>\<open>/^10\.\d{4,}\//\<close>.\<close>

definition valid_doi_rx :: "rx list" where
  "valid_doi_rx = [Bol] @ lit ''10.'' @ [Atom (One D) (Greedy 4)] @ lit ''/''"

definition is_valid_doi :: "string \<Rightarrow> bool" where
  "is_valid_doi s = js_test False valid_doi_rx s"

text \<open>The inner function \<^verbatim>\<open>extractDOIFromStructuredData\<close>; \<open>Inr None\<close> is \<^verbatim>\<open>null\<close>.\<close>

definition extractDOIFromStructuredData :: "json \<Rightarrow> js_error + string option" where
  "extractDOIFromStructuredData obj =
     (if obj = JNull then Inl (cannot_read ''null'' ''identifier'')
      else (case identifier_doi (json_prop obj ''identifier'') of
              Inl err \<Rightarrow> Inl err
            | Inr (Some s) \<Rightarrow> Inr (Some s)
            | Inr None \<Rightarrow>
                (case json_string (json_prop obj ''doi'') of
                   Some s \<Rightarrow> Inr (Some (cleanDOI_of s))
                 | None \<Rightarrow>
                     (case json_string (json_prop obj ''@id'') of
                        Some s \<Rightarrow>
                          (if includes_str s ''doi.org''
                           then (case js_match False doi_text_rx s of
                                   Some m \<Rightarrow> Inr (Some (fst m))
                                 | None \<Rightarrow> Inr None)
                           else Inr None)
                      | None \<Rightarrow> Inr None))))"

text \<open>A string that is not \<^verbatim>\<open>null\<close> and not empty.\<close>

fun nonempty :: "string option \<Rightarrow> bool" where
  "nonempty (Some s) = (s \<noteq> [])"
| "nonempty None = False"

text \<open>The loop over the items of an array: it stops at the first truthy result.\<close>

fun first_item_doi :: "json list \<Rightarrow> string option \<Rightarrow> js_error + string option" where
  "first_item_doi [] doi = Inr doi"
| "first_item_doi (item # items) doi =
     (case extractDOIFromStructuredData item of
        Inl err \<Rightarrow> Inl err
      | Inr d \<Rightarrow> if nonempty d then Inr d else first_item_doi items d)"

text \<open>
  Strategy 2, the loop over the scripts: an exception in a script is caught and the next
  script is read; a result is returned only if it passes the validation.
\<close>

fun jsonld_doi :: "(js_error + json) list \<Rightarrow> string option" where
  "jsonld_doi [] = None"
| "jsonld_doi (Inl err # scripts) = jsonld_doi scripts"
| "jsonld_doi (Inr d # scripts) =
     (case (case d of JArr items \<Rightarrow> first_item_doi items None
                    | _ \<Rightarrow> extractDOIFromStructuredData d) of
        Inl err \<Rightarrow> jsonld_doi scripts
      | Inr None \<Rightarrow> jsonld_doi scripts
      | Inr (Some doi) \<Rightarrow>
          (if doi \<noteq> [] \<and> is_valid_doi doi then Some doi else jsonld_doi scripts))"

text \<open>Strategies 1 and 3: the content of a meta tag, normalised and validated.\<close>

definition meta_doi :: "string option \<Rightarrow> string option" where
  "meta_doi m =
     (case m of
        None \<Rightarrow> None
      | Some content \<Rightarrow>
          (if content = [] then None
           else (let doi = cleanDOI_of content
                 in if doi \<noteq> [] \<and> is_valid_doi doi then Some doi else None)))"

text \<open>\<^verbatim>\<open>/[,;]$/\<close> and \<^verbatim>\<open>/[,;.]$/\<close>\<close>

definition trailing_rx :: "rx list" where
  "trailing_rx = [Atom (AnyOf [C CHR '','', C CHR '';'']) Once, Eol]"

definition trailing_dot_rx :: "rx list" where
  "trailing_dot_rx = [Atom (AnyOf [C CHR '','', C CHR '';'', C CHR ''.'']) Once, Eol]"

text \<open>Strategy 4: the first element whose trimmed text holds a DOI.\<close>

fun element_doi :: "string list \<Rightarrow> string option" where
  "element_doi [] = None"
| "element_doi (text # texts) =
     (case js_match False doi_text_rx (trim text) of
        Some m \<Rightarrow> Some (js_remove_first False trailing_rx (fst m))
      | None \<Rightarrow> element_doi texts)"

text \<open>\<^verbatim>\<open>/doi\.org\/(10\.\d{4,}\/[^\s]+)/\<close>\<close>

definition doi_link_rx :: "rx list" where
  "doi_link_rx =
     lit ''doi.org/'' @ [GroupOpen] @ lit ''10.'' @ [Atom (One D) (Greedy 4)] @ lit ''/'' @
     [Atom (NoneOf [S]) (Greedy 1), GroupClose]"

text \<open>Strategy 5: the first link whose address holds a DOI.\<close>

fun link_doi :: "string list \<Rightarrow> string option" where
  "link_doi [] = None"
| "link_doi (href # hrefs) =
     (case js_match False doi_link_rx href of
        Some m \<Rightarrow> Some (render (snd m))
      | None \<Rightarrow> link_doi hrefs)"

text \<open>\<^verbatim>\<open>/\b(?:DOI|doi)[\s:]+?(10\.\d{4,}\/[^\s,;]+)/i\<close>\<close>

definition labelled_doi_rx :: "rx list" where
  "labelled_doi_rx =
     [WordB, Alt [''DOI'', ''doi''], Atom (AnyOf [S, C CHR '':'']) (Lazy 1), GroupOpen] @
     lit ''10.'' @ [Atom (One D) (Greedy 4)] @ lit ''/'' @
     [Atom (NoneOf [S, C CHR '','', C CHR '';'']) (Greedy 1), GroupClose]"

text \<open>\<^verbatim>\<open>/arxiv\.org\/(?:abs|pdf)\/(\d+\.\d+)/i\<close>\<close>

definition arxiv_page_rx :: "rx list" where
  "arxiv_page_rx =
     lit ''arxiv.org/'' @ [Alt [''abs'', ''pdf'']] @ lit ''/'' @
     [GroupOpen, Atom (One D) (Greedy 1)] @ lit ''.'' @ [Atom (One D) (Greedy 1), GroupClose]"

text \<open>Strategy 6 and strategy 7.\<close>

definition body_doi :: "string \<Rightarrow> string option" where
  "body_doi bodyText =
     (case js_match True labelled_doi_rx bodyText of
        Some m \<Rightarrow> Some (js_remove_first False trailing_dot_rx (render (snd m)))
      | None \<Rightarrow> None)"

definition arxiv_doi :: "string \<Rightarrow> string option \<Rightarrow> string option" where
  "arxiv_doi href arxivMeta =
     (case js_match True arxiv_page_rx href of
        Some arxivMatch \<Rightarrow> Some (''10.48550/arXiv.'' @ render (snd arxivMatch))
      | None \<Rightarrow>
          (case arxivMeta of
             None \<Rightarrow> None
           | Some content \<Rightarrow>
               (if content = [] then None else Some (''10.48550/arXiv.'' @ content))))"

text \<open>
  \<^verbatim>\<open>extractDOINonDestructive\<close>: the seven strategies in their order; \<open>None\<close> is \<^verbatim>\<open>null\<close>.
\<close>

definition extractDOINonDestructive :: "document \<Rightarrow> string option" where
  "extractDOINonDestructive doc =
     (case meta_doi (citation_doi_meta doc) of
        Some doi \<Rightarrow> Some doi
      | None \<Rightarrow>
     (case jsonld_doi (jsonld_scripts doc) of
        Some doi \<Rightarrow> Some doi
      | None \<Rightarrow>
     (case meta_doi (prism_doi_meta doc) of
        Some doi \<Rightarrow> Some doi
      | None \<Rightarrow>
     (case element_doi (doi_element_texts doc) of
        Some doi \<Rightarrow> Some doi
      | None \<Rightarrow>
     (case link_doi (doi_link_hrefs doc) of
        Some doi \<Rightarrow> Some doi
      | None \<Rightarrow>
     (case body_doi (body_text doc) of
        Some doi \<Rightarrow> Some doi
      | None \<Rightarrow> arxiv_doi (location_href doc) (citation_arxiv_id_meta doc)))))))"

section \<open>The cache of OA records\<close>

text \<open>
  \<^verbatim>\<open>getCachedOAStatus\<close>. The key is built from the argument as it is. A rejected storage
  call is caught and gives \<^verbatim>\<open>null\<close>. An entry of the storage is an object, hence truthy.
\<close>

definition getCachedOAStatus :: "env \<Rightarrow> string js \<Rightarrow> world \<Rightarrow> oa_record option \<times> world" where
  "getCachedOAStatus e doi w =
     (if \<not> truthy doi then (None, w)
      else (let cacheKey = ''oa_cache_'' @ render doi;
                w1 = emit (StorageGet cacheKey) w
            in if storage_get_fails e then (None, w1)
               else (case storage w1 cacheKey of
                       None \<Rightarrow> (None, w1)
                     | Some cached \<Rightarrow>
                         (let age = now_read e - ce_timestamp cached
                          in if age < CACHE_DURATION then (Some (ce_data cached), w1)
                             else (let w2 = emit (StorageRemove cacheKey) w1
                                   in if storage_remove_fails e then (None, w2)
                                      else (None, w2\<lparr>storage := (storage w2)(cacheKey := None)\<rparr>))))))"

text \<open>
  \<^verbatim>\<open>cacheOAStatus\<close>. The record \<open>oaData\<close> is an object, so only the test of \<open>doi\<close> can
  return early. A rejected storage call is caught.
\<close>

definition cacheOAStatus :: "env \<Rightarrow> string js \<Rightarrow> oa_record \<Rightarrow> world \<Rightarrow> world" where
  "cacheOAStatus e doi oaData w =
     (if \<not> truthy doi then w
      else (let cacheKey = ''oa_cache_'' @ render doi;
                w1 = emit (StorageSet cacheKey) w
            in if storage_set_fails e then w1
               else w1\<lparr>storage := (storage w1)(cacheKey \<mapsto>
                      \<lparr>ce_data = oaData, ce_timestamp = now_write e\<rparr>)\<rparr>))"

section \<open>The resolver\<close>

text \<open>\<^verbatim>\<open>encodeURIComponent\<close> on code units below 256 (none of them is a surrogate).\<close>

definition unreserved :: "char \<Rightarrow> bool" where
  "unreserved c =
     (let n = (of_char c :: nat)
      in (65 \<le> n \<and> n \<le> 90) \<or> (97 \<le> n \<and> n \<le> 122) \<or> (48 \<le> n \<and> n \<le> 57) \<or>
         c \<in> set ''-_.!~*()'' \<or> n = 39)"

definition hex2 :: "nat \<Rightarrow> string" where
  "hex2 n = [''0123456789ABCDEF'' ! (n div 16), ''0123456789ABCDEF'' ! (n mod 16)]"

definition encode_char :: "char \<Rightarrow> string" where
  "encode_char c =
     (let n = (of_char c :: nat)
      in if unreserved c then [c]
         else if n < 128 then CHR ''%'' # hex2 n
         else CHR ''%'' # hex2 (192 + n div 64) @ CHR ''%'' # hex2 (128 + n mod 64))"

definition encodeURIComponent :: "string \<Rightarrow> string" where
  "encodeURIComponent s = concat (map encode_char s)"

text \<open>A number in a template literal.\<close>

fun string_of_nat :: "nat \<Rightarrow> string" where
  "string_of_nat n =
     (if n < 10 then [''0123456789'' ! n]
      else string_of_nat (n div 10) @ [''0123456789'' ! (n mod 10)])"

declare string_of_nat.simps [simp del]

definition registry_url :: "string \<Rightarrow> string" where
  "registry_url cleanDOI =
     UNPAYWALL_API @ ''/'' @ encodeURIComponent cleanDOI @ ''?email='' @ UNPAYWALL_EMAIL"

text \<open>
  The \<^verbatim>\<open>try\<close> block of \<^verbatim>\<open>queryUnpaywall\<close>; \<open>Inl\<close> is the exception it throws. The timer
  of the \<^verbatim>\<open>AbortController\<close> is the environment's: a registry call that times out is a
  \<open>fetch\<close> rejected with an exception named \<^verbatim>\<open>AbortError\<close>.
\<close>

definition queryUnpaywall_try :: "env \<Rightarrow> string \<Rightarrow> world \<Rightarrow> (js_error + oa_record) \<times> world" where
  "queryUnpaywall_try e doi w =
     (let cleanDOI = cleanDOI_of doi;
          url = registry_url cleanDOI;
          w1 = emit (FetchRegistry url) w
      in case fetch e url of
           Rejected err \<Rightarrow> (Inl err, w1)
         | Resolved response \<Rightarrow>
             (if \<not> response_ok response
              then (if resp_status response = 404
                    then (let result = oa_none\<lparr>is_oa := Val False, oa_status := Val ''not_found'',
                                         oa_doi := Val cleanDOI\<rparr>
                          in (Inr result, cacheOAStatus e (Val cleanDOI) result w1))
                    else (Inl (JsError ''Error''
                            (''Unpaywall API error: '' @ string_of_nat (resp_status response))),
                          w1))
              else (case resp_json response of
                      Inl err \<Rightarrow> (Inl err, w1)
                    | Inr Undefined \<Rightarrow> (Inl (cannot_read ''undefined'' ''doi''), w1)
                    | Inr Null \<Rightarrow> (Inl (cannot_read ''null'' ''doi''), w1)
                    | Inr (Val d) \<Rightarrow>
                        (let loc = best_oa_location d;
                             oaData = \<lparr>oa_doi = up_doi d,
                                       is_oa = Val (truthy_bool (up_is_oa d)),
                                       oa_status = up_oa_status d,
                                       oa_url = (case loc of Val l \<Rightarrow> loc_url l | _ \<Rightarrow> Undefined),
                                       host_type =
                                         (case loc of Val l \<Rightarrow> loc_host_type l | _ \<Rightarrow> Undefined),
                                       version =
                                         (case loc of Val l \<Rightarrow> loc_version l | _ \<Rightarrow> Undefined),
                                       license =
                                         (case loc of Val l \<Rightarrow> loc_license l | _ \<Rightarrow> Undefined),
                                       oa_error = Undefined\<rparr>
                         in (Inr oaData, cacheOAStatus e (Val cleanDOI) oaData w1)))))"

text \<open>\<^verbatim>\<open>queryUnpaywall\<close>: the early return, the cache, then the \<^verbatim>\<open>try\<close> block and its \<^verbatim>\<open>catch\<close>.\<close>

definition queryUnpaywall :: "env \<Rightarrow> string js \<Rightarrow> world \<Rightarrow> oa_record \<times> world" where
  "queryUnpaywall e doi w =
     (if \<not> truthy doi
      then (oa_none\<lparr>is_oa := Val False, oa_error := Val ''No DOI provided''\<rparr>, w)
      else (case getCachedOAStatus e doi w of
              (Some cached, w1) \<Rightarrow> (cached, w1)
            | (None, w1) \<Rightarrow>
                (case queryUnpaywall_try e (render doi) w1 of
                   (Inr r, w2) \<Rightarrow> (r, w2)
                 | (Inl err, w2) \<Rightarrow>
                     (if err_name err = ''AbortError''
                      then (oa_none\<lparr>is_oa := Val False,
                                     oa_error := Val ''Unpaywall API timeout''\<rparr>, w2)
                      else (oa_none\<lparr>is_oa := Val False,
                                     oa_error := Val (err_message err)\<rparr>, w2)))))"

section \<open>The admission decision\<close>

record page_data =
  pd_url :: "string js"
  pd_domain :: "string js"
  pd_isPDF :: "bool js"
  pd_contentType :: "string js"
  pd_doi :: "string js"

text \<open>The object \<^verbatim>\<open>checkCopyright\<close> returns; a property it does not set is \<open>Undefined\<close>.\<close>

record decision =
  allowed :: bool
  reason :: string
  category :: string
  confidence :: string
  warning :: "string js"
  suggestion :: "string js"
  d_oa_url :: "string js"
  d_oa_host :: "string js"
  d_oa_status :: "string js"
  d_doi :: "string js"
  d_error :: "string js"

definition mk_decision :: "bool \<Rightarrow> string \<Rightarrow> string \<Rightarrow> string \<Rightarrow> decision" where
  "mk_decision a r c k =
     \<lparr>allowed = a, reason = r, category = c, confidence = k, warning = Undefined,
      suggestion = Undefined, d_oa_url = Undefined, d_oa_host = Undefined,
      d_oa_status = Undefined, d_doi = Undefined, d_error = Undefined\<rparr>"

definition whitelist_decision :: decision where
  "whitelist_decision = mk_decision True ''Trusted open access source'' ''whitelist'' ''high''"

definition blacklist_decision :: decision where
  "blacklist_decision =
     (mk_decision False
        ''Content from subscription database - cannot verify open access status without DOI''
        ''blacklist'' ''high'')
     \<lparr>suggestion := Val ''Try finding an open access version on preprint servers or institutional repositories''\<rparr>"

definition unknown_pdf_decision :: decision where
  "unknown_pdf_decision =
     (mk_decision False ''PDF from unknown source - cannot verify copyright status''
        ''unknown_pdf'' ''medium'')
     \<lparr>suggestion := Val ''Try accessing the article webpage instead of direct PDF, or check if available on open access repositories''\<rparr>"

definition unknown_html_decision :: decision where
  "unknown_html_decision =
     (mk_decision True ''Unknown source - could not verify copyright status''
        ''unknown_html'' ''low'')
     \<lparr>warning := Val ''Copyright status could not be verified. Please ensure you have the right to access this content.''\<rparr>"

definition verification_failed_decision :: "oa_record \<Rightarrow> decision" where
  "verification_failed_decision oaStatus =
     (mk_decision False
        (''Could not verify open access status ('' @ render (oa_error oaStatus) @ '')'')
        ''verification_failed'' ''low'')
     \<lparr>suggestion := Val ''Check your internet connection and try again, or verify the article is open access manually''\<rparr>"

definition oa_verified_decision :: "string js \<Rightarrow> string js \<Rightarrow> oa_record \<Rightarrow> decision" where
  "oa_verified_decision url doi oaStatus =
     (let result = (mk_decision True
                      (''Open access confirmed ('' @ render (oa_status oaStatus) @ '')'')
                      ''oa_verified'' ''high'')
                   \<lparr>d_oa_status := oa_status oaStatus, d_doi := doi\<rparr>
      in if truthy (oa_url oaStatus) \<and> oa_url oaStatus \<noteq> url
         then result\<lparr>d_oa_url := oa_url oaStatus, d_oa_host := host_type oaStatus,
                suggestion := Val (''Open access version available at: '' @
                                   render (oa_url oaStatus))\<rparr>
         else result)"

definition paywalled_decision :: "string js \<Rightarrow> oa_record \<Rightarrow> decision" where
  "paywalled_decision doi oaStatus =
     (mk_decision False
        (''Article is not openly accessible (status: '' @
         (if truthy (oa_status oaStatus) then render (oa_status oaStatus) else ''paywalled'') @
         '')'')
        ''paywalled'' ''high'')
     \<lparr>d_doi := doi,
       suggestion := Val ''Check for preprint versions on arXiv.org, bioRxiv, or contact the author for a copy''\<rparr>"

definition error_decision :: "js_error \<Rightarrow> decision" where
  "error_decision err =
     (mk_decision False (''Copyright verification failed: '' @ err_message err) ''error'' ''low'')
     \<lparr>d_error := Val (err_message err)\<rparr>"

text \<open>The lazy load at the head of \<^verbatim>\<open>checkCopyright\<close>; the result of the load is dropped.\<close>

definition ensure_loaded :: "env \<Rightarrow> world \<Rightarrow> world" where
  "ensure_loaded e w = (if whitelist w = [] then snd (loadAcademicDatabases e w) else w)"

text \<open>\<^verbatim>\<open>pageData.domain || new URL(url).hostname\<close>; \<open>Inl\<close> is the exception of \<^verbatim>\<open>new URL\<close>.\<close>

definition domain_of :: "env \<Rightarrow> page_data \<Rightarrow> js_error + string" where
  "domain_of e pd =
     (if truthy (pd_domain pd) then Inr (render (pd_domain pd))
      else (case new_URL e (render (pd_url pd)) of
              Inl err \<Rightarrow> Inl err
            | Inr urlObj \<Rightarrow> Inr (hostname urlObj)))"

text \<open>\<^verbatim>\<open>pageData.isPDF || pageData.contentType === 'pdf'\<close>\<close>

definition isPDF_of :: "page_data \<Rightarrow> bool" where
  "isPDF_of pd = (truthy_bool (pd_isPDF pd) \<or> pd_contentType pd = Val ''pdf'')"

text \<open>Step 2: the DOI after the look at the address of a PDF.\<close>

definition doi_of :: "env \<Rightarrow> page_data \<Rightarrow> string js" where
  "doi_of e pd =
     (if \<not> truthy (pd_doi pd) \<and> isPDF_of pd then extractDOIFromPDFUrl e (pd_url pd)
      else pd_doi pd)"

text \<open>The \<^verbatim>\<open>try\<close> block of \<^verbatim>\<open>checkCopyright\<close>; \<open>Inl\<close> is the exception it throws.\<close>

definition checkCopyright_try :: "env \<Rightarrow> page_data js \<Rightarrow> world \<Rightarrow> (js_error + decision) \<times> world" where
  "checkCopyright_try e pageData w =
     (let w1 = ensure_loaded e w in
      case pageData of
        Undefined \<Rightarrow> (Inl (cannot_read ''undefined'' ''url''), w1)
      | Null \<Rightarrow> (Inl (cannot_read ''null'' ''url''), w1)
      | Val pd \<Rightarrow>
          (case domain_of e pd of
             Inl err \<Rightarrow> (Inl err, w1)
           | Inr domain \<Rightarrow>
               (let url = pd_url pd; isPDF = isPDF_of pd in
                if isWhitelisted w1 domain then (Inr whitelist_decision, w1)
                else (let doi = doi_of e pd in
                  if \<not> truthy doi
                  then (if isBlacklisted w1 domain then (Inr blacklist_decision, w1)
                        else if isPDF then (Inr unknown_pdf_decision, w1)
                        else (Inr unknown_html_decision, w1))
                  else (case queryUnpaywall e doi w1 of
                          (oaStatus, w2) \<Rightarrow>
                            (if truthy (oa_error oaStatus) \<and> \<not> truthy_bool (is_oa oaStatus)
                             then (Inr (verification_failed_decision oaStatus), w2)
                             else if truthy_bool (is_oa oaStatus)
                             then (Inr (oa_verified_decision url doi oaStatus), w2)
                             else (Inr (paywalled_decision doi oaStatus), w2)))))))"

text \<open>
  \<^verbatim>\<open>checkCopyright\<close>: the \<^verbatim>\<open>try\<close> block and its \<^verbatim>\<open>catch\<close>. The result is what the call
  completes with: \<open>Inr\<close> a decision it returns, \<open>Inl\<close> an exception that leaves it.
\<close>

definition checkCopyright :: "env \<Rightarrow> page_data js \<Rightarrow> world \<Rightarrow> (js_error + decision) \<times> world" where
  "checkCopyright e pageData w =
     (case checkCopyright_try e pageData w of
        (Inr d, w') \<Rightarrow> (Inr d, w')
      | (Inl err, w') \<Rightarrow> (Inr (error_decision err), w'))"

section \<open>Sample inputs\<close>

text \<open>Concrete environments, states and pages, on which the theorems below are run.\<close>

definition sample_world :: world where
  "sample_world =
     \<lparr>whitelist = [''arxiv.org'', ''plos.org''], blacklist = [''ieeexplore.ieee.org''],
      conditional = [''researchgate.net''], storage = Map.empty, trace = []\<rparr>"

definition sample_new_URL :: "string \<Rightarrow> js_error + url_obj" where
  "sample_new_URL u =
     (if u = ''https://ieeexplore.ieee.org/document/123.pdf''
      then Inr \<lparr>hostname = ''ieeexplore.ieee.org'', doi_param = Null\<rparr>
      else if u = ''https://example.com/paper.pdf?doi=hello''
      then Inr \<lparr>hostname = ''example.com'', doi_param = Val ''hello''\<rparr>
      else if u = ''https://example.com/files/report.pdf''
      then Inr \<lparr>hostname = ''example.com'', doi_param = Null\<rparr>
      else Inl (JsError ''TypeError'' ''Invalid URL''))"

text \<open>An environment whose registry call always times out.\<close>

definition timeout_env :: env where
  "timeout_env =
     \<lparr>dataset = Inl (JsError ''TypeError'' ''Failed to fetch''),
      fetch = (\<lambda>u. Rejected (JsError ''AbortError'' ''The user aborted a request.'')),
      new_URL = sample_new_URL, now_read = 1000, now_write = 1000,
      storage_get_fails = False, storage_remove_fails = False, storage_set_fails = False\<rparr>"

text \<open>An environment whose registry reports every DOI as open access.\<close>

definition sample_answer :: unpaywall_data where
  "sample_answer =
     \<lparr>up_doi = Val ''10.1234/abc'', up_is_oa = Val True, up_oa_status = Val ''gold'',
      best_oa_location =
        Val \<lparr>loc_url = Val ''https://repository.example.org/abc.pdf'',
             loc_host_type = Val ''repository'', loc_version = Val ''publishedVersion'',
             loc_license = Val ''cc-by''\<rparr>\<rparr>"

definition oa_env :: env where
  "oa_env =
     \<lparr>dataset = Inl (JsError ''TypeError'' ''Failed to fetch''),
      fetch = (\<lambda>u. Resolved \<lparr>resp_status = 200, resp_json = Inr (Val sample_answer)\<rparr>),
      new_URL = sample_new_URL, now_read = 1000, now_write = 1000,
      storage_get_fails = False, storage_remove_fails = False, storage_set_fails = False\<rparr>"

definition sample_page :: "string \<Rightarrow> string \<Rightarrow> bool \<Rightarrow> string js \<Rightarrow> page_data" where
  "sample_page url domain pdf doi =
     \<lparr>pd_url = Val url, pd_domain = Val domain, pd_isPDF = (if pdf then Val True else Undefined),
      pd_contentType = Val (if pdf then ''pdf'' else ''web''), pd_doi = doi\<rparr>"

section \<open>Properties\<close>

subsection \<open>Strings and the classifier\<close>

lemma startsWith_iff: "startsWith s t \<longleftrightarrow> (\<exists>r. s = t @ r)"
  by (induction s t rule: startsWith.induct) auto

lemma includes_str_iff: "includes_str s t \<longleftrightarrow> (\<exists>p r. s = p @ t @ r)"
proof (induction s)
  case Nil
  then show ?case by simp
next
  case (Cons c cs)
  show ?case
  proof
    assume "includes_str (c # cs) t"
    then consider "startsWith (c # cs) t" | "includes_str cs t" by auto
    then show "\<exists>p r. c # cs = p @ t @ r"
    proof cases
      case 1
      then obtain r where "c # cs = t @ r" using startsWith_iff by blast
      then have "c # cs = [] @ t @ r" by simp
      then show ?thesis by blast
    next
      case 2
      then obtain p r where "cs = p @ t @ r" using Cons.IH by blast
      then have "c # cs = (c # p) @ t @ r" by simp
      then show ?thesis by blast
    qed
  next
    assume "\<exists>p r. c # cs = p @ t @ r"
    then obtain p r where pr: "c # cs = p @ t @ r" by blast
    show "includes_str (c # cs) t"
    proof (cases p)
      case Nil
      then have "startsWith (c # cs) t" using pr startsWith_iff by auto
      then show ?thesis by simp
    next
      case (Cons a p')
      then have "cs = p' @ t @ r" using pr by simp
      then have "includes_str cs t" using Cons.IH by blast
      then show ?thesis by simp
    qed
  qed
qed

lemma domain_in_iff:
  "domain_in entries domain \<longleftrightarrow>
     domain \<noteq> [] \<and>
     (\<exists>entry \<in> set entries. \<exists>p r. toLowerCase domain = p @ toLowerCase entry @ r)"
  by (simp add: domain_in_def includes_str_iff list_ex_iff)

text \<open>
  A classifier answers by a case-insensitive substring match: the domain is not empty and
  the lower-cased entry occurs in the lower-cased domain.
\<close>

lemma isWhitelisted_iff:
  "isWhitelisted w domain \<longleftrightarrow>
     domain \<noteq> [] \<and>
     (\<exists>entry \<in> set (whitelist w). \<exists>p r. toLowerCase domain = p @ toLowerCase entry @ r)"
  by (simp add: isWhitelisted_def domain_in_iff)

lemma sample_world_loaded: "ensure_loaded e sample_world = sample_world"
  by (simp add: ensure_loaded_def sample_world_def)

lemma sample_domain: "domain_of e (sample_page u d p doi) = (if d = [] then
   (case new_URL e u of Inl err \<Rightarrow> Inl err | Inr urlObj \<Rightarrow> Inr (hostname urlObj)) else Inr d)"
  by (simp add: domain_of_def sample_page_def)

lemma sample_classified:
  "isWhitelisted sample_world ''ArXiv.org''"
  "\<not> isWhitelisted sample_world ''ieeexplore.ieee.org''"
  "isBlacklisted sample_world ''ieeexplore.ieee.org''"
  "\<not> isWhitelisted sample_world ''example.com''"
  "\<not> isBlacklisted sample_world ''example.com''"
  by code_simp+

lemma sample_not_listed:
  "\<not> isWhitelisted sample_world ''journal.example.com''"
  "\<not> isWhitelisted sample_world ''repository.example.org''"
  by code_simp+

subsection \<open>The resolver without a DOI\<close>

text \<open>
  C10. For a DOI argument that is \<^verbatim>\<open>undefined\<close>, \<^verbatim>\<open>null\<close> or the empty string,
  \<^verbatim>\<open>queryUnpaywall\<close> returns the record with \<^verbatim>\<open>is_oa\<close> false and the error
  \<^verbatim>\<open>No DOI provided\<close>, and leaves the state as it was: the storage is neither read nor
  written and nothing is fetched (the trace is unchanged).
\<close>

theorem queryUnpaywall_no_doi:
  "queryUnpaywall e Undefined w =
     (\<lparr>oa_doi = Undefined, is_oa = Val False, oa_status = Undefined, oa_url = Undefined,
       host_type = Undefined, version = Undefined, license = Undefined,
       oa_error = Val ''No DOI provided''\<rparr>, w) \<and>
   queryUnpaywall e Null w = queryUnpaywall e Undefined w \<and>
   queryUnpaywall e (Val []) w = queryUnpaywall e Undefined w"
  by (simp add: queryUnpaywall_def oa_none_def)

subsection \<open>The arXiv address\<close>

lemma arxiv_url_doiInPath:
  "js_match True doiInPath_rx ''https://arxiv.org/pdf/2301.00001.pdf'' = None"
  by code_simp

lemma arxiv_url_springer:
  "js_match False springer_rx ''https://arxiv.org/pdf/2301.00001.pdf'' = None"
  by code_simp

lemma arxiv_url_arxiv:
  "js_match True arxiv_rx ''https://arxiv.org/pdf/2301.00001.pdf'' =
     Some (''arxiv.org/pdf/2301.00001'', Val ''2301.00001'')"
  by code_simp

text \<open>
  C8. On the address \<^verbatim>\<open>https://arxiv.org/pdf/2301.00001.pdf\<close> the pattern of a DOI in
  the path and the publisher pattern do not match, the arXiv pattern captures the
  identifier, and \<^verbatim>\<open>extractDOIFromPDFUrl\<close> returns \<^verbatim>\<open>10.48550/arXiv.2301.00001\<close>,
  whatever the environment.
\<close>

theorem extractDOIFromPDFUrl_arxiv:
  "js_match True doiInPath_rx ''https://arxiv.org/pdf/2301.00001.pdf'' = None \<and>
   js_match False springer_rx ''https://arxiv.org/pdf/2301.00001.pdf'' = None \<and>
   extractDOIFromPDFUrl e (Val ''https://arxiv.org/pdf/2301.00001.pdf'') =
     Val ''10.48550/arXiv.2301.00001''"
  by (simp add: extractDOIFromPDFUrl_def arxiv_url_doiInPath arxiv_url_springer arxiv_url_arxiv)

subsection \<open>The whitelist\<close>

text \<open>
  C1. When the domain of the page (\<^verbatim>\<open>pageData.domain\<close>, or the host name of the address
  when that is empty) is whitelisted in the lists as they stand after the lazy load,
  \<^verbatim>\<open>checkCopyright\<close> returns the whitelist decision: allowed, category \<^verbatim>\<open>whitelist\<close>,
  confidence \<^verbatim>\<open>high\<close>. The page is arbitrary otherwise, so neither its DOI nor its content
  type matters; the state afterwards is the loaded state, so no cache and no registry call
  was made.
\<close>

theorem checkCopyright_whitelisted:
  assumes "domain_of e pd = Inr domain"
    and "isWhitelisted (ensure_loaded e w) domain"
  shows "checkCopyright e (Val pd) w = (Inr whitelist_decision, ensure_loaded e w) \<and>
         allowed whitelist_decision \<and> category whitelist_decision = ''whitelist'' \<and>
         confidence whitelist_decision = ''high''"
  using assms
  by (simp add: checkCopyright_def checkCopyright_try_def whitelist_decision_def mk_decision_def)

theorem checkCopyright_whitelisted_witness:
  "checkCopyright timeout_env
     (Val (sample_page ''https://arxiv.org/pdf/2301.00001.pdf'' ''ArXiv.org'' True
        (Val ''10.1234/abc''))) sample_world =
   (Inr whitelist_decision, sample_world) \<and>
   checkCopyright timeout_env
     (Val (sample_page ''https://arxiv.org/abs/2301.00001'' ''ArXiv.org'' False Null))
     sample_world =
   (Inr whitelist_decision, sample_world)"
proof -
  have h1: "domain_of timeout_env (sample_page u ''ArXiv.org'' p doi) = Inr ''ArXiv.org''"
    for u p doi
    by (simp add: sample_domain)
  have h2: "isWhitelisted (ensure_loaded timeout_env sample_world) ''ArXiv.org''"
    by (simp add: sample_world_loaded sample_classified)
  from checkCopyright_whitelisted[OF h1 h2] show ?thesis
    by (simp add: sample_world_loaded)
qed

subsection \<open>Pages without a DOI\<close>

lemma checkCopyright_no_doi_eq:
  assumes "domain_of e pd = Inr domain"
    and "\<not> isWhitelisted (ensure_loaded e w) domain"
    and "\<not> truthy (doi_of e pd)"
  shows "checkCopyright e (Val pd) w =
           (Inr (if isBlacklisted (ensure_loaded e w) domain then blacklist_decision
                 else if isPDF_of pd then unknown_pdf_decision else unknown_html_decision),
            ensure_loaded e w)"
  using assms by (simp add: checkCopyright_def checkCopyright_try_def)

lemma sample_no_doi_in_url:
  "extractDOIFromPDFUrl timeout_env (Val ''https://ieeexplore.ieee.org/document/123.pdf'') = Null"
  "extractDOIFromPDFUrl timeout_env (Val ''https://example.com/files/report.pdf'') = Null"
proof -
  have "js_match True doiInPath_rx ''https://ieeexplore.ieee.org/document/123.pdf'' = None"
    "js_match False springer_rx ''https://ieeexplore.ieee.org/document/123.pdf'' = None"
    "js_match True arxiv_rx ''https://ieeexplore.ieee.org/document/123.pdf'' = None"
    by code_simp+
  then show "extractDOIFromPDFUrl timeout_env (Val ''https://ieeexplore.ieee.org/document/123.pdf'') = Null"
    by (simp add: extractDOIFromPDFUrl_def timeout_env_def sample_new_URL_def)
  have "js_match True doiInPath_rx ''https://example.com/files/report.pdf'' = None"
    "js_match False springer_rx ''https://example.com/files/report.pdf'' = None"
    "js_match True arxiv_rx ''https://example.com/files/report.pdf'' = None"
    by code_simp+
  then show "extractDOIFromPDFUrl timeout_env (Val ''https://example.com/files/report.pdf'') = Null"
    by (simp add: extractDOIFromPDFUrl_def timeout_env_def sample_new_URL_def)
qed

text \<open>
  C2. When the domain is not whitelisted and there is no DOI after step 2 (none in the page
  data and, for a PDF, \<^verbatim>\<open>extractDOIFromPDFUrl\<close> gives \<^verbatim>\<open>null\<close>), the decision is: for a
  blacklisted domain blocked, category \<^verbatim>\<open>blacklist\<close>, confidence \<^verbatim>\<open>high\<close>; else for a PDF
  blocked, category \<^verbatim>\<open>unknown_pdf\<close>, confidence \<^verbatim>\<open>medium\<close>; else allowed, category
  \<^verbatim>\<open>unknown_html\<close>, confidence \<^verbatim>\<open>low\<close>, with a warning.
\<close>

theorem checkCopyright_no_doi:
  assumes "domain_of e pd = Inr domain"
    and "wl = ensure_loaded e w"
    and "\<not> isWhitelisted wl domain"
    and "\<not> truthy (pd_doi pd)"
    and "isPDF_of pd \<Longrightarrow> extractDOIFromPDFUrl e (pd_url pd) = Null"
  shows "\<exists>d. checkCopyright e (Val pd) w = (Inr d, wl) \<and>
           (if isBlacklisted wl domain
            then \<not> allowed d \<and> category d = ''blacklist'' \<and> confidence d = ''high''
            else if isPDF_of pd
            then \<not> allowed d \<and> category d = ''unknown_pdf'' \<and> confidence d = ''medium''
            else allowed d \<and> category d = ''unknown_html'' \<and> confidence d = ''low'' \<and>
                 truthy (warning d))"
proof -
  have nodoi: "\<not> truthy (doi_of e pd)"
    using assms(4,5) by (auto simp: doi_of_def)
  have eq: "checkCopyright e (Val pd) w =
           (Inr (if isBlacklisted wl domain then blacklist_decision
                 else if isPDF_of pd then unknown_pdf_decision else unknown_html_decision), wl)"
    using checkCopyright_no_doi_eq[of e pd domain w] assms(1,2,3) nodoi by simp
  show ?thesis
    unfolding eq
    by (simp add: blacklist_decision_def unknown_pdf_decision_def unknown_html_decision_def
        mk_decision_def)
qed

theorem checkCopyright_no_doi_witness:
  "(\<exists>d. checkCopyright timeout_env
           (Val (sample_page ''https://ieeexplore.ieee.org/document/123.pdf''
              ''ieeexplore.ieee.org'' True Null)) sample_world = (Inr d, sample_world) \<and>
         \<not> allowed d \<and> category d = ''blacklist'' \<and> confidence d = ''high'') \<and>
   (\<exists>d. checkCopyright timeout_env
           (Val (sample_page ''https://example.com/files/report.pdf'' ''example.com'' True Null))
           sample_world = (Inr d, sample_world) \<and>
         \<not> allowed d \<and> category d = ''unknown_pdf'' \<and> confidence d = ''medium'') \<and>
   (\<exists>d. checkCopyright timeout_env
           (Val (sample_page ''https://example.com/blog'' ''example.com'' False Null))
           sample_world = (Inr d, sample_world) \<and>
         allowed d \<and> category d = ''unknown_html'' \<and> confidence d = ''low'' \<and>
         truthy (warning d))"
proof -
  have w: "sample_world = ensure_loaded timeout_env sample_world"
    by (simp add: sample_world_loaded)
  have a: "\<exists>d. checkCopyright timeout_env
           (Val (sample_page ''https://ieeexplore.ieee.org/document/123.pdf''
              ''ieeexplore.ieee.org'' True Null)) sample_world = (Inr d, sample_world) \<and>
         \<not> allowed d \<and> category d = ''blacklist'' \<and> confidence d = ''high''"
    using checkCopyright_no_doi[where e = timeout_env and w = sample_world and wl = sample_world
        and domain = "''ieeexplore.ieee.org''"
        and pd = "sample_page ''https://ieeexplore.ieee.org/document/123.pdf''
              ''ieeexplore.ieee.org'' True Null", OF _ w]
    by (simp add: sample_domain sample_classified sample_no_doi_in_url)
       (simp add: sample_page_def sample_no_doi_in_url)
  have b: "\<exists>d. checkCopyright timeout_env
           (Val (sample_page ''https://example.com/files/report.pdf'' ''example.com'' True Null))
           sample_world = (Inr d, sample_world) \<and>
         \<not> allowed d \<and> category d = ''unknown_pdf'' \<and> confidence d = ''medium''"
    using checkCopyright_no_doi[where e = timeout_env and w = sample_world and wl = sample_world
        and domain = "''example.com''"
        and pd = "sample_page ''https://example.com/files/report.pdf'' ''example.com'' True Null",
        OF _ w]
    by (simp add: sample_domain sample_classified)
       (simp add: sample_page_def sample_no_doi_in_url isPDF_of_def)
  have c: "\<exists>d. checkCopyright timeout_env
           (Val (sample_page ''https://example.com/blog'' ''example.com'' False Null))
           sample_world = (Inr d, sample_world) \<and>
         allowed d \<and> category d = ''unknown_html'' \<and> confidence d = ''low'' \<and>
         truthy (warning d)"
    using checkCopyright_no_doi[where e = timeout_env and w = sample_world and wl = sample_world
        and domain = "''example.com''"
        and pd = "sample_page ''https://example.com/blog'' ''example.com'' False Null",
        OF _ w]
    by (simp add: sample_domain sample_classified)
       (simp add: sample_page_def isPDF_of_def)
  from a b c show ?thesis by blast
qed

subsection \<open>Exceptions\<close>

text \<open>
  C4. \<^verbatim>\<open>checkCopyright\<close> completes with a decision for every environment, state and page
  data, the values \<^verbatim>\<open>null\<close> and \<^verbatim>\<open>undefined\<close> included: no exception leaves it. When
  its \<^verbatim>\<open>try\<close> block throws, the decision is the error decision: blocked, category
  \<^verbatim>\<open>error\<close>, confidence \<^verbatim>\<open>low\<close>. An allowed decision is always one the \<^verbatim>\<open>try\<close> block
  returned.
\<close>

theorem checkCopyright_never_throws:
  "\<exists>d. fst (checkCopyright e pageData w) = Inr d \<and>
        (\<forall>err. fst (checkCopyright_try e pageData w) = Inl err \<longrightarrow>
           d = error_decision err \<and> \<not> allowed d \<and> category d = ''error'' \<and>
           confidence d = ''low'') \<and>
        (allowed d \<longrightarrow> fst (checkCopyright_try e pageData w) = Inr d)"
  by (cases "checkCopyright_try e pageData w"; cases "fst (checkCopyright_try e pageData w)")
     (auto simp: checkCopyright_def error_decision_def mk_decision_def)

theorem checkCopyright_never_throws_witness:
  "(\<exists>d. fst (checkCopyright timeout_env Null sample_world) = Inr d \<and> \<not> allowed d \<and>
        category d = ''error'' \<and> confidence d = ''low'') \<and>
   (\<exists>d. fst (checkCopyright timeout_env
              (Val \<lparr>pd_url = Val ''not a url'', pd_domain = Undefined, pd_isPDF = Undefined,
                    pd_contentType = Val ''web'', pd_doi = Null\<rparr>) sample_world) = Inr d \<and>
        \<not> allowed d \<and> category d = ''error'' \<and> d_error d = Val ''Invalid URL'')"
proof -
  have t1: "fst (checkCopyright_try timeout_env Null sample_world) = Inl (cannot_read ''null'' ''url'')"
    by (simp add: checkCopyright_try_def)
  have t2: "fst (checkCopyright_try timeout_env
              (Val \<lparr>pd_url = Val ''not a url'', pd_domain = Undefined, pd_isPDF = Undefined,
                    pd_contentType = Val ''web'', pd_doi = Null\<rparr>) sample_world) =
            Inl (JsError ''TypeError'' ''Invalid URL'')"
    by (simp add: checkCopyright_try_def domain_of_def timeout_env_def sample_new_URL_def)
  have a: "\<exists>d. fst (checkCopyright timeout_env Null sample_world) = Inr d \<and> \<not> allowed d \<and>
        category d = ''error'' \<and> confidence d = ''low''"
    using checkCopyright_never_throws[of timeout_env Null sample_world] t1 by auto
  have b: "\<exists>d. fst (checkCopyright timeout_env
              (Val \<lparr>pd_url = Val ''not a url'', pd_domain = Undefined, pd_isPDF = Undefined,
                    pd_contentType = Val ''web'', pd_doi = Null\<rparr>) sample_world) = Inr d \<and>
        \<not> allowed d \<and> category d = ''error'' \<and> d_error d = Val ''Invalid URL''"
    using checkCopyright_never_throws[of timeout_env
              "Val \<lparr>pd_url = Val ''not a url'', pd_domain = Undefined, pd_isPDF = Undefined,
                    pd_contentType = Val ''web'', pd_doi = Null\<rparr>" sample_world] t2
    by (auto simp: error_decision_def mk_decision_def)
  from a b show ?thesis by blast
qed

subsection \<open>Invariants of a decision\<close>

lemma checkCopyright_try_forms:
  assumes "fst (checkCopyright_try e (Val pd) w) = Inr d"
    and "r = fst (queryUnpaywall e (doi_of e pd) (ensure_loaded e w))"
  shows "d = whitelist_decision \<or> d = blacklist_decision \<or> d = unknown_pdf_decision \<or>
         d = unknown_html_decision \<or> d = verification_failed_decision r \<or>
         d = oa_verified_decision (pd_url pd) (doi_of e pd) r \<or>
         d = paywalled_decision (doi_of e pd) r"
  using assms
  by (cases "queryUnpaywall e (doi_of e pd) (ensure_loaded e w)")
     (auto simp: checkCopyright_try_def Let_def split: sum.splits if_splits)

lemma form_invariants:
  assumes "d = whitelist_decision \<or> d = blacklist_decision \<or> d = unknown_pdf_decision \<or>
         d = unknown_html_decision \<or> d = verification_failed_decision r \<or>
         d = oa_verified_decision url doi r \<or> d = paywalled_decision doi r"
  shows "(category d = ''whitelist'' \<longrightarrow> allowed d \<and> confidence d = ''high'') \<and>
         (category d = ''blacklist'' \<longrightarrow> \<not> allowed d) \<and>
         (d_oa_url d \<noteq> Undefined \<longrightarrow> d_oa_url d \<noteq> url) \<and>
         (oa_url r = url \<longrightarrow> d_oa_url d = Undefined)"
  using assms
  by (elim disjE)
     (simp_all add: whitelist_decision_def blacklist_decision_def unknown_pdf_decision_def
        unknown_html_decision_def verification_failed_decision_def oa_verified_decision_def
        paywalled_decision_def mk_decision_def Let_def)

lemma d_oa_url_oa_verified:
  "d_oa_url (oa_verified_decision url doi r) =
     (if truthy (oa_url r) \<and> oa_url r \<noteq> url then oa_url r else Undefined)"
  by (simp add: oa_verified_decision_def mk_decision_def Let_def)

lemma clean_prefixed: "cleanDOI_of ''doi:10.1234/abc'' = ''10.1234/abc''"
  by code_simp

lemma registry_url_sample:
  "registry_url ''10.1234/abc'' =
     ''https://api.unpaywall.org/v2/10.1234%2Fabc?email=wangzifeng157@gmail.com''"
  by code_simp

lemma clean_plain: "cleanDOI_of ''10.1234/abc'' = ''10.1234/abc''"
  by code_simp

lemma sample_oa_query:
  "fst (queryUnpaywall oa_env (Val ''10.1234/abc'') sample_world) =
     \<lparr>oa_doi = Val ''10.1234/abc'', is_oa = Val True, oa_status = Val ''gold'',
      oa_url = Val ''https://repository.example.org/abc.pdf'', host_type = Val ''repository'',
      version = Val ''publishedVersion'', license = Val ''cc-by'', oa_error = Undefined\<rparr>"
  by (simp add: queryUnpaywall_def getCachedOAStatus_def queryUnpaywall_try_def cacheOAStatus_def
      emit_def clean_plain registry_url_sample oa_env_def sample_world_def sample_answer_def
      response_ok_def Let_def)

lemma checkCopyright_with_doi:
  assumes "domain_of e pd = Inr domain"
    and "\<not> isWhitelisted (ensure_loaded e w) domain"
    and "truthy (doi_of e pd)"
  shows "fst (checkCopyright e (Val pd) w) =
     (let oaStatus = fst (queryUnpaywall e (doi_of e pd) (ensure_loaded e w))
      in Inr (if truthy (oa_error oaStatus) \<and> \<not> truthy_bool (is_oa oaStatus)
              then verification_failed_decision oaStatus
              else if truthy_bool (is_oa oaStatus)
              then oa_verified_decision (pd_url pd) (doi_of e pd) oaStatus
              else paywalled_decision (doi_of e pd) oaStatus))"
  using assms
  by (cases "queryUnpaywall e (doi_of e pd) (ensure_loaded e w)")
     (simp add: checkCopyright_def checkCopyright_try_def Let_def)

lemma sample_oa_decision:
  assumes "d \<noteq> []" and "\<not> isWhitelisted sample_world d"
  shows "fst (checkCopyright oa_env (Val (sample_page u d False (Val ''10.1234/abc''))) sample_world) =
     Inr (oa_verified_decision (Val u) (Val ''10.1234/abc'')
             (fst (queryUnpaywall oa_env (Val ''10.1234/abc'') sample_world)))"
proof -
  have dom: "domain_of oa_env (sample_page u d False (Val ''10.1234/abc'')) = Inr d"
    using assms(1) by (simp add: sample_domain)
  have doi: "doi_of oa_env (sample_page u d False (Val ''10.1234/abc'')) = Val ''10.1234/abc''"
    by (simp add: doi_of_def sample_page_def)
  have url: "pd_url (sample_page u d False (Val ''10.1234/abc'')) = Val u"
    by (simp add: sample_page_def)
  show ?thesis
    using checkCopyright_with_doi[OF dom, of sample_world] assms(2)
    by (simp add: sample_world_loaded doi url sample_oa_query)
qed

text \<open>
  C5. Every decision \<^verbatim>\<open>checkCopyright\<close> returns satisfies: category \<^verbatim>\<open>whitelist\<close> implies
  allowed with confidence \<^verbatim>\<open>high\<close>; category \<^verbatim>\<open>blacklist\<close> implies blocked; a property
  \<^verbatim>\<open>oa_url\<close> that is set differs from the \<^verbatim>\<open>url\<close> of the page; and when the \<^verbatim>\<open>oa_url\<close>
  of the resolver's record equals the \<^verbatim>\<open>url\<close> of the page the property is not set.
\<close>

theorem decision_invariants:
  assumes "fst (checkCopyright e pageData w) = Inr d"
  shows "(category d = ''whitelist'' \<longrightarrow> allowed d \<and> confidence d = ''high'') \<and>
         (category d = ''blacklist'' \<longrightarrow> \<not> allowed d) \<and>
         (\<forall>pd. pageData = Val pd \<longrightarrow>
            (d_oa_url d \<noteq> Undefined \<longrightarrow> d_oa_url d \<noteq> pd_url pd) \<and>
            (oa_url (fst (queryUnpaywall e (doi_of e pd) (ensure_loaded e w))) = pd_url pd \<longrightarrow>
               d_oa_url d = Undefined))"
proof (cases "fst (checkCopyright_try e pageData w)")
  case (Inl err)
  then have "d = error_decision err"
    using assms by (cases "checkCopyright_try e pageData w") (simp add: checkCopyright_def)
  then show ?thesis
    by (simp add: error_decision_def mk_decision_def)
next
  case (Inr d')
  then have dd: "d' = d"
    using assms by (cases "checkCopyright_try e pageData w") (simp add: checkCopyright_def)
  show ?thesis
  proof (cases pageData)
    case (Val pd)
    then have "fst (checkCopyright_try e (Val pd) w) = Inr d"
      using Inr dd by simp
    from form_invariants[OF checkCopyright_try_forms[OF this refl]]
    show ?thesis
      using Val by simp
  next
    case Undefined
    then show ?thesis using Inr by (simp add: checkCopyright_try_def)
  next
    case Null
    then show ?thesis using Inr by (simp add: checkCopyright_try_def)
  qed
qed

theorem decision_invariants_witness:
  "(\<exists>d. fst (checkCopyright timeout_env
             (Val (sample_page ''https://arxiv.org/pdf/2301.00001.pdf'' ''ArXiv.org'' True Null))
             sample_world) = Inr d \<and>
        category d = ''whitelist'' \<and> allowed d \<and> confidence d = ''high'') \<and>
   (\<exists>d. fst (checkCopyright timeout_env
             (Val (sample_page ''https://ieeexplore.ieee.org/document/123.pdf''
                ''ieeexplore.ieee.org'' True Null)) sample_world) = Inr d \<and>
        category d = ''blacklist'' \<and> \<not> allowed d) \<and>
   (\<exists>d. fst (checkCopyright oa_env
             (Val (sample_page ''https://journal.example.com/article'' ''journal.example.com''
                False (Val ''10.1234/abc''))) sample_world) = Inr d \<and>
        d_oa_url d = Val ''https://repository.example.org/abc.pdf'' \<and>
        d_oa_url d \<noteq> Val ''https://journal.example.com/article'') \<and>
   (\<exists>d. fst (checkCopyright oa_env
             (Val (sample_page ''https://repository.example.org/abc.pdf''
                ''repository.example.org'' False (Val ''10.1234/abc''))) sample_world) = Inr d \<and>
        category d = ''oa_verified'' \<and> d_oa_url d = Undefined)"
proof -
  let ?p1 = "sample_page ''https://arxiv.org/pdf/2301.00001.pdf'' ''ArXiv.org'' True Null"
  let ?p2 = "sample_page ''https://ieeexplore.ieee.org/document/123.pdf''
                ''ieeexplore.ieee.org'' True Null"
  let ?p3 = "sample_page ''https://journal.example.com/article'' ''journal.example.com''
                False (Val ''10.1234/abc'')"
  let ?p4 = "sample_page ''https://repository.example.org/abc.pdf''
                ''repository.example.org'' False (Val ''10.1234/abc'')"
  have d1: "fst (checkCopyright timeout_env (Val ?p1) sample_world) = Inr whitelist_decision"
    by (simp add: checkCopyright_def checkCopyright_try_def sample_world_loaded sample_domain
        sample_classified)
  have d2: "fst (checkCopyright timeout_env (Val ?p2) sample_world) = Inr blacklist_decision"
    by (simp add: checkCopyright_def checkCopyright_try_def sample_world_loaded sample_domain
        sample_classified doi_of_def)
       (simp add: sample_page_def sample_no_doi_in_url)
  have d3: "fst (checkCopyright oa_env (Val ?p3) sample_world) =
      Inr (oa_verified_decision (Val ''https://journal.example.com/article'') (Val ''10.1234/abc'')
             (fst (queryUnpaywall oa_env (Val ''10.1234/abc'') sample_world)))"
    by (rule sample_oa_decision) (simp_all add: sample_not_listed)
  have d4: "fst (checkCopyright oa_env (Val ?p4) sample_world) =
      Inr (oa_verified_decision (Val ''https://repository.example.org/abc.pdf'') (Val ''10.1234/abc'')
             (fst (queryUnpaywall oa_env (Val ''10.1234/abc'') sample_world)))"
    by (rule sample_oa_decision) (simp_all add: sample_not_listed)
  have a: "category whitelist_decision = ''whitelist'' \<and> allowed whitelist_decision \<and>
           confidence whitelist_decision = ''high''"
    using decision_invariants[OF d1] by (simp add: whitelist_decision_def mk_decision_def)
  have b: "category blacklist_decision = ''blacklist'' \<and> \<not> allowed blacklist_decision"
    using decision_invariants[OF d2] by (simp add: blacklist_decision_def mk_decision_def)
  have u3: "d_oa_url (oa_verified_decision (Val ''https://journal.example.com/article'')
              (Val ''10.1234/abc'') (fst (queryUnpaywall oa_env (Val ''10.1234/abc'') sample_world))) =
            Val ''https://repository.example.org/abc.pdf''"
    by (simp add: d_oa_url_oa_verified sample_oa_query)
  have c: "d_oa_url (oa_verified_decision (Val ''https://journal.example.com/article'')
              (Val ''10.1234/abc'') (fst (queryUnpaywall oa_env (Val ''10.1234/abc'') sample_world))) \<noteq>
            Val ''https://journal.example.com/article''"
    using decision_invariants[OF d3] u3 by (simp add: sample_page_def)
  have e: "category (oa_verified_decision (Val ''https://repository.example.org/abc.pdf'')
              (Val ''10.1234/abc'') (fst (queryUnpaywall oa_env (Val ''10.1234/abc'') sample_world))) =
            ''oa_verified'' \<and>
           d_oa_url (oa_verified_decision (Val ''https://repository.example.org/abc.pdf'')
              (Val ''10.1234/abc'') (fst (queryUnpaywall oa_env (Val ''10.1234/abc'') sample_world))) =
            Undefined"
    by (simp add: d_oa_url_oa_verified sample_oa_query)
       (simp add: oa_verified_decision_def mk_decision_def Let_def)
  from d1 d2 d3 d4 a b c e u3 show ?thesis by simp
qed

subsection \<open>The conditional list\<close>

lemma emit_conditional: "emit ev (w\<lparr>conditional := c\<rparr>) = (emit ev w)\<lparr>conditional := c\<rparr>"
  by (simp add: emit_def)

lemma getCachedOAStatus_conditional:
  "getCachedOAStatus e doi (w\<lparr>conditional := c\<rparr>) =
     (fst (getCachedOAStatus e doi w), (snd (getCachedOAStatus e doi w))\<lparr>conditional := c\<rparr>)"
  by (simp add: getCachedOAStatus_def emit_def Let_def split: option.splits)

lemma cacheOAStatus_conditional:
  "cacheOAStatus e doi r (w\<lparr>conditional := c\<rparr>) = (cacheOAStatus e doi r w)\<lparr>conditional := c\<rparr>"
  by (simp add: cacheOAStatus_def emit_def Let_def)

lemma queryUnpaywall_try_conditional:
  "queryUnpaywall_try e doi (w\<lparr>conditional := c\<rparr>) =
     (fst (queryUnpaywall_try e doi w), (snd (queryUnpaywall_try e doi w))\<lparr>conditional := c\<rparr>)"
  by (simp add: queryUnpaywall_try_def emit_conditional cacheOAStatus_conditional Let_def
      split: fetch_outcome.splits sum.splits js.splits)

lemma queryUnpaywall_conditional:
  "queryUnpaywall e doi (w\<lparr>conditional := c\<rparr>) =
     (fst (queryUnpaywall e doi w), (snd (queryUnpaywall e doi w))\<lparr>conditional := c\<rparr>)"
  by (simp add: queryUnpaywall_def getCachedOAStatus_conditional queryUnpaywall_try_conditional
      split: prod.splits option.splits sum.splits)

lemma loadAcademicDatabases_conditional:
  "\<exists>c'. snd (loadAcademicDatabases e (w\<lparr>conditional := c\<rparr>)) =
     (snd (loadAcademicDatabases e w))\<lparr>conditional := c'\<rparr>"
  by (auto simp: loadAcademicDatabases_def emit_def Let_def
      split: sum.splits option.splits prod.splits bool.splits intro: exI[of _ c])


lemma ensure_loaded_conditional:
  "\<exists>c'. ensure_loaded e (w\<lparr>conditional := c\<rparr>) = (ensure_loaded e w)\<lparr>conditional := c'\<rparr>"
proof (cases "whitelist w = []")
  case True
  then show ?thesis
    using loadAcademicDatabases_conditional[where e=e and w=w and c=c] by (simp add: ensure_loaded_def)
next
  case False
  then show ?thesis
    by (auto simp: ensure_loaded_def intro: exI[of _ c])
qed

lemma classifiers_conditional:
  "isWhitelisted (w\<lparr>conditional := c\<rparr>) d = isWhitelisted w d"
  "isBlacklisted (w\<lparr>conditional := c\<rparr>) d = isBlacklisted w d"
  by (simp_all add: isWhitelisted_def isBlacklisted_def)

lemma checkCopyright_try_conditional:
  "\<exists>c'. checkCopyright_try e pageData (w\<lparr>conditional := c\<rparr>) =
     (fst (checkCopyright_try e pageData w),
      (snd (checkCopyright_try e pageData w))\<lparr>conditional := c'\<rparr>)"
proof -
  obtain c' where c': "ensure_loaded e (w\<lparr>conditional := c\<rparr>) = (ensure_loaded e w)\<lparr>conditional := c'\<rparr>"
    using ensure_loaded_conditional by blast
  show ?thesis
    by (rule exI[of _ c'])
       (simp add: checkCopyright_try_def c' classifiers_conditional queryUnpaywall_conditional
          Let_def split: js.splits sum.splits prod.splits)
qed

lemma checkCopyright_conditional:
  "\<exists>c'. checkCopyright e pageData (w\<lparr>conditional := c\<rparr>) =
     (fst (checkCopyright e pageData w), (snd (checkCopyright e pageData w))\<lparr>conditional := c'\<rparr>)"
proof -
  obtain c' where c': "checkCopyright_try e pageData (w\<lparr>conditional := c\<rparr>) =
     (fst (checkCopyright_try e pageData w),
      (snd (checkCopyright_try e pageData w))\<lparr>conditional := c'\<rparr>)"
    using checkCopyright_try_conditional by blast
  show ?thesis
    by (rule exI[of _ c'])
       (simp add: checkCopyright_def c' split: prod.splits sum.splits)
qed

text \<open>
  C9. The decision does not depend on the conditional list: for two states that differ in
  that list only, \<^verbatim>\<open>checkCopyright\<close> returns the same decision, and leaves the same
  storage and the same trace. \<open>isConditional\<close> occurs in no definition of the pipeline.
\<close>

theorem decision_independent_of_conditional:
  "fst (checkCopyright e pageData (w\<lparr>conditional := c1\<rparr>)) =
     fst (checkCopyright e pageData (w\<lparr>conditional := c2\<rparr>)) \<and>
   storage (snd (checkCopyright e pageData (w\<lparr>conditional := c1\<rparr>))) =
     storage (snd (checkCopyright e pageData (w\<lparr>conditional := c2\<rparr>))) \<and>
   trace (snd (checkCopyright e pageData (w\<lparr>conditional := c1\<rparr>))) =
     trace (snd (checkCopyright e pageData (w\<lparr>conditional := c2\<rparr>)))"
proof -
  obtain a where a: "checkCopyright e pageData (w\<lparr>conditional := c1\<rparr>) =
     (fst (checkCopyright e pageData w), (snd (checkCopyright e pageData w))\<lparr>conditional := a\<rparr>)"
    using checkCopyright_conditional by blast
  obtain b where b: "checkCopyright e pageData (w\<lparr>conditional := c2\<rparr>) =
     (fst (checkCopyright e pageData w), (snd (checkCopyright e pageData w))\<lparr>conditional := b\<rparr>)"
    using checkCopyright_conditional by blast
  show ?thesis
    by (simp add: a b)
qed

subsection \<open>A registry call that times out\<close>

lemma getCachedOAStatus_trace:
  "\<exists>evs. trace (snd (getCachedOAStatus e doi w)) = trace w @ evs \<and> \<not> list_ex is_cache_write evs
         \<and> \<not> list_ex is_registry_call evs"
  by (auto simp: getCachedOAStatus_def emit_def Let_def split: option.splits)

lemma getCachedOAStatus_storage:
  "storage (snd (getCachedOAStatus e doi w)) k = None \<or>
   storage (snd (getCachedOAStatus e doi w)) k = storage w k"
  by (auto simp: getCachedOAStatus_def emit_def Let_def split: option.splits)

lemma getCachedOAStatus_miss_absent:
  assumes "truthy doi" and "fst (getCachedOAStatus e doi w) = None"
    and "\<not> storage_get_fails e" and "\<not> storage_remove_fails e"
  shows "storage (snd (getCachedOAStatus e doi w)) (''oa_cache_'' @ render doi) = None"
  using assms
  by (auto simp: getCachedOAStatus_def emit_def Let_def split: option.splits if_splits)

lemma getCachedOAStatus_absent_miss:
  assumes "storage w (''oa_cache_'' @ render doi) = None"
  shows "fst (getCachedOAStatus e doi w) = None"
  using assms
  by (auto simp: getCachedOAStatus_def emit_def Let_def split: option.splits if_splits)

lemma getCachedOAStatus_hit:
  assumes "truthy doi" and "\<not> storage_get_fails e"
    and "storage w (''oa_cache_'' @ render doi) = Some c"
    and "now_read e - ce_timestamp c < CACHE_DURATION"
  shows "getCachedOAStatus e doi w =
           (Some (ce_data c), emit (StorageGet (''oa_cache_'' @ render doi)) w)"
  using assms
  by (auto simp: getCachedOAStatus_def emit_def Let_def split: option.splits if_splits)

lemma queryUnpaywall_try_trace:
  "\<exists>evs. trace (snd (queryUnpaywall_try e d w)) =
           trace w @ FetchRegistry (registry_url (cleanDOI_of d)) # evs"
  by (auto simp: queryUnpaywall_try_def cacheOAStatus_def emit_def Let_def
      split: fetch_outcome.splits sum.splits js.splits)

lemma queryUnpaywall_try_rejected:
  assumes "fetch e (registry_url (cleanDOI_of d)) = Rejected err"
  shows "queryUnpaywall_try e d w =
           (Inl err, emit (FetchRegistry (registry_url (cleanDOI_of d))) w)"
  using assms by (simp add: queryUnpaywall_try_def Let_def)

lemma queryUnpaywall_miss:
  assumes "truthy doi" and "fst (getCachedOAStatus e doi w) = None"
  shows "queryUnpaywall e doi w =
     (case queryUnpaywall_try e (render doi) (snd (getCachedOAStatus e doi w)) of
        (Inr r, w2) \<Rightarrow> (r, w2)
      | (Inl err, w2) \<Rightarrow>
          (if err_name err = ''AbortError''
           then (oa_none\<lparr>is_oa := Val False, oa_error := Val ''Unpaywall API timeout''\<rparr>, w2)
           else (oa_none\<lparr>is_oa := Val False, oa_error := Val (err_message err)\<rparr>, w2)))"
  using assms
  by (cases "getCachedOAStatus e doi w") (simp add: queryUnpaywall_def)

lemma queryUnpaywall_hit:
  assumes "truthy doi" and "\<not> storage_get_fails e"
    and "storage w (''oa_cache_'' @ render doi) = Some c"
    and "now_read e - ce_timestamp c < CACHE_DURATION"
  shows "queryUnpaywall e doi w =
           (ce_data c, emit (StorageGet (''oa_cache_'' @ render doi)) w)"
  using assms by (simp add: queryUnpaywall_def getCachedOAStatus_hit)

lemma queryUnpaywall_miss_fetches:
  assumes "truthy doi" and "fst (getCachedOAStatus e doi w) = None"
  shows "list_ex is_registry_call (new_events w (snd (queryUnpaywall e doi w)))"
proof -
  obtain evs where evs: "trace (snd (getCachedOAStatus e doi w)) = trace w @ evs"
    using getCachedOAStatus_trace by blast
  obtain evs' where evs': "trace (snd (queryUnpaywall_try e (render doi) (snd (getCachedOAStatus e doi w)))) =
      trace (snd (getCachedOAStatus e doi w)) @ FetchRegistry (registry_url (cleanDOI_of (render doi))) # evs'"
    using queryUnpaywall_try_trace by blast
  have "snd (queryUnpaywall e doi w) =
          snd (queryUnpaywall_try e (render doi) (snd (getCachedOAStatus e doi w)))"
    unfolding queryUnpaywall_miss[OF assms]
    by (auto split: prod.splits sum.splits)
  then show ?thesis
    by (simp add: new_events_def evs' evs)
qed

lemma queryUnpaywall_timeout:
  assumes "truthy doi" and "fst (getCachedOAStatus e doi w) = None"
    and "fetch e (registry_url (cleanDOI_of (render doi))) = Rejected err"
    and "err_name err = ''AbortError''"
  shows "queryUnpaywall e doi w =
           (oa_none\<lparr>is_oa := Val False, oa_error := Val ''Unpaywall API timeout''\<rparr>,
            emit (FetchRegistry (registry_url (cleanDOI_of (render doi))))
              (snd (getCachedOAStatus e doi w)))"
  unfolding queryUnpaywall_miss[OF assms(1,2)] queryUnpaywall_try_rejected[OF assms(3)]
  using assms(4) by simp

text \<open>
  C6. Let the DOI be truthy, the cache miss, and the registry call be rejected with an
  \<^verbatim>\<open>AbortError\<close>. Then \<^verbatim>\<open>queryUnpaywall\<close> returns \<^verbatim>\<open>is_oa\<close> false with the error
  \<^verbatim>\<open>Unpaywall API timeout\<close>; the call sets no storage entry (none of its events is a write,
  every key is absent or as before); when the storage calls of the lookup did not fail the
  key of the DOI is absent afterwards and a retry, in any environment, calls the registry
  again; and \<^verbatim>\<open>checkCopyright\<close>, for a page of a domain that is not whitelisted with this
  DOI, is blocked with category \<^verbatim>\<open>verification_failed\<close> and confidence \<^verbatim>\<open>low\<close>.
\<close>

theorem registry_timeout:
  assumes "truthy doi"
    and "fst (getCachedOAStatus e doi wl) = None"
    and "fetch e (registry_url (cleanDOI_of (render doi))) = Rejected err"
    and "err_name err = ''AbortError''"
    and "wq = snd (queryUnpaywall e doi wl)"
    and "wl = ensure_loaded e w"
    and "domain_of e pd = Inr domain"
    and "\<not> isWhitelisted wl domain"
    and "doi_of e pd = doi"
  shows "is_oa (fst (queryUnpaywall e doi wl)) = Val False \<and>
         oa_error (fst (queryUnpaywall e doi wl)) = Val ''Unpaywall API timeout'' \<and>
         \<not> list_ex is_cache_write (new_events wl wq) \<and>
         (\<forall>k. storage wq k = None \<or> storage wq k = storage wl k) \<and>
         (\<not> storage_get_fails e \<and> \<not> storage_remove_fails e \<longrightarrow>
            storage wq (''oa_cache_'' @ render doi) = None \<and>
            (\<forall>e'. list_ex is_registry_call (new_events wq (snd (queryUnpaywall e' doi wq))))) \<and>
         (\<exists>d. checkCopyright e (Val pd) w = (Inr d, wq) \<and> \<not> allowed d \<and>
              category d = ''verification_failed'' \<and> confidence d = ''low'')"
proof -
  let ?u = "registry_url (cleanDOI_of (render doi))"
  let ?g = "snd (getCachedOAStatus e doi wl)"
  have q: "queryUnpaywall e doi wl =
      (oa_none\<lparr>is_oa := Val False, oa_error := Val ''Unpaywall API timeout''\<rparr>,
       emit (FetchRegistry ?u) ?g)"
    by (rule queryUnpaywall_timeout[OF assms(1-4)])
  have wdef: "wq = emit (FetchRegistry ?u) ?g"
    using assms(5) q by simp
  obtain evs where evs: "trace ?g = trace wl @ evs" "\<not> list_ex is_cache_write evs"
    using getCachedOAStatus_trace by blast
  have a: "is_oa (fst (queryUnpaywall e doi wl)) = Val False \<and>
         oa_error (fst (queryUnpaywall e doi wl)) = Val ''Unpaywall API timeout''"
    by (simp add: q oa_none_def)
  have b: "\<not> list_ex is_cache_write (new_events wl wq)"
    using evs by (simp add: wdef new_events_def emit_def)
  have c: "\<forall>k. storage wq k = None \<or> storage wq k = storage wl k"
    using getCachedOAStatus_storage[of e doi wl] by (simp add: wdef emit_def)
  have d: "\<not> storage_get_fails e \<and> \<not> storage_remove_fails e \<longrightarrow>
            storage wq (''oa_cache_'' @ render doi) = None \<and>
            (\<forall>e'. list_ex is_registry_call (new_events wq (snd (queryUnpaywall e' doi wq))))"
  proof (intro impI)
    assume ok: "\<not> storage_get_fails e \<and> \<not> storage_remove_fails e"
    have absent: "storage wq (''oa_cache_'' @ render doi) = None"
      using getCachedOAStatus_miss_absent[OF assms(1,2)] ok by (simp add: wdef emit_def)
    have "list_ex is_registry_call (new_events wq (snd (queryUnpaywall e' doi wq)))" for e'
      by (rule queryUnpaywall_miss_fetches[OF assms(1) getCachedOAStatus_absent_miss[OF absent]])
    with absent show "storage wq (''oa_cache_'' @ render doi) = None \<and>
        (\<forall>e'. list_ex is_registry_call (new_events wq (snd (queryUnpaywall e' doi wq))))"
      by blast
  qed
  have f: "\<exists>d. checkCopyright e (Val pd) w = (Inr d, wq) \<and> \<not> allowed d \<and>
              category d = ''verification_failed'' \<and> confidence d = ''low''"
    using assms(1,6,7,8,9) q
    by (simp add: checkCopyright_def checkCopyright_try_def wdef oa_none_def
        verification_failed_decision_def mk_decision_def)
  from a b c d f show ?thesis by blast
qed

theorem registry_timeout_witness:
  "is_oa (fst (queryUnpaywall timeout_env (Val ''10.1234/abc'') sample_world)) = Val False \<and>
   oa_error (fst (queryUnpaywall timeout_env (Val ''10.1234/abc'') sample_world)) =
     Val ''Unpaywall API timeout'' \<and>
   storage (snd (queryUnpaywall timeout_env (Val ''10.1234/abc'') sample_world))
     ''oa_cache_10.1234/abc'' = None \<and>
   (\<exists>d. fst (checkCopyright timeout_env
             (Val (sample_page ''https://journal.example.com/article'' ''journal.example.com''
                False (Val ''10.1234/abc''))) sample_world) = Inr d \<and>
        \<not> allowed d \<and> category d = ''verification_failed'' \<and> confidence d = ''low'')"
proof -
  let ?pd = "sample_page ''https://journal.example.com/article'' ''journal.example.com''
                False (Val ''10.1234/abc'')"
  have h1: "truthy (Val ''10.1234/abc'')" by simp
  have h2: "fst (getCachedOAStatus timeout_env (Val ''10.1234/abc'') sample_world) = None"
    by (simp add: getCachedOAStatus_def emit_def sample_world_def timeout_env_def)
  have h3: "fetch timeout_env (registry_url (cleanDOI_of (render (Val ''10.1234/abc'')))) =
      Rejected (JsError ''AbortError'' ''The user aborted a request.'')"
    by (simp add: timeout_env_def)
  have h4: "err_name (JsError ''AbortError'' ''The user aborted a request.'') = ''AbortError''"
    by simp
  have h6: "sample_world = ensure_loaded timeout_env sample_world"
    by (simp add: sample_world_loaded)
  have h7: "domain_of timeout_env ?pd = Inr ''journal.example.com''"
    by (simp add: sample_domain)
  have h9: "doi_of timeout_env ?pd = Val ''10.1234/abc''"
    by (simp add: doi_of_def sample_page_def)
  have ok: "\<not> storage_get_fails timeout_env \<and> \<not> storage_remove_fails timeout_env"
    by (simp add: timeout_env_def)
  from registry_timeout[OF h1 h2 h3 h4 refl h6 h7 sample_not_listed(1) h9] ok
  show ?thesis by fastforce
qed

subsection \<open>The key of the cache\<close>

lemma cacheOAStatus_stores:
  assumes "truthy doi" and "\<not> storage_set_fails e"
  shows "storage (cacheOAStatus e doi r w) (''oa_cache_'' @ render doi) =
           Some \<lparr>ce_data = r, ce_timestamp = now_write e\<rparr>"
  using assms by (simp add: cacheOAStatus_def emit_def Let_def)

lemma queryUnpaywall_try_stores:
  assumes "queryUnpaywall_try e d w = (Inr r, w')" and "cleanDOI_of d \<noteq> []"
    and "\<not> storage_set_fails e"
  shows "storage w' (''oa_cache_'' @ cleanDOI_of d) = Some \<lparr>ce_data = r, ce_timestamp = now_write e\<rparr>"
  using assms
  by (auto simp: queryUnpaywall_try_def cacheOAStatus_def emit_def Let_def
      split: fetch_outcome.splits sum.splits js.splits if_splits)

lemma queryUnpaywall_cached_second_call:
  assumes "truthy doi" and norm: "cleanDOI_of (render doi) = render doi"
    and miss: "fst (getCachedOAStatus e1 doi w) = None"
    and ok: "oa_error (fst (queryUnpaywall e1 doi w)) = Undefined"
    and "\<not> storage_set_fails e1" and "\<not> storage_get_fails e2"
    and "now_read e2 - now_write e1 < CACHE_DURATION"
    and "w1 = snd (queryUnpaywall e1 doi w)"
  shows "queryUnpaywall e2 doi w1 =
           (fst (queryUnpaywall e1 doi w), emit (StorageGet (''oa_cache_'' @ render doi)) w1)"
proof -
  obtain res w' where t: "queryUnpaywall_try e1 (render doi) (snd (getCachedOAStatus e1 doi w)) = (res, w')"
    by (cases "queryUnpaywall_try e1 (render doi) (snd (getCachedOAStatus e1 doi w))")
  have q: "queryUnpaywall e1 doi w =
     (case res of Inr r \<Rightarrow> (r, w')
      | Inl err \<Rightarrow>
          (if err_name err = ''AbortError''
           then (oa_none\<lparr>is_oa := Val False, oa_error := Val ''Unpaywall API timeout''\<rparr>, w')
           else (oa_none\<lparr>is_oa := Val False, oa_error := Val (err_message err)\<rparr>, w')))"
    unfolding queryUnpaywall_miss[OF assms(1) miss] t by (simp split: sum.splits)
  obtain r where r: "res = Inr r"
    using ok q by (cases res) (auto split: if_splits)
  have nonempty: "cleanDOI_of (render doi) \<noteq> []"
    using assms(1) norm by (cases doi) auto
  have st: "storage w' (''oa_cache_'' @ render doi) = Some \<lparr>ce_data = r, ce_timestamp = now_write e1\<rparr>"
    using queryUnpaywall_try_stores[OF t[unfolded r] nonempty assms(5)] norm by simp
  have w1: "w1 = w'" and f: "fst (queryUnpaywall e1 doi w) = r"
    using assms(8) q r by simp_all
  show ?thesis
    using queryUnpaywall_hit[of doi e2 w1 "\<lparr>ce_data = r, ce_timestamp = now_write e1\<rparr>"]
      assms(1,6,7) st
    by (simp add: w1 f)
qed

text \<open>
  C3. The lemma above is the claim for a DOI that is already normalised. For the DOI
  \<^verbatim>\<open>doi:10.1234/abc\<close> the claim fails: the first call writes the record under
  \<^verbatim>\<open>oa_cache_10.1234/abc\<close>, the key of the normalised DOI, while the lookup reads
  \<^verbatim>\<open>oa_cache_doi:10.1234/abc\<close>, the key of the argument as given; the second call at the
  same time misses the cache and calls the registry again.
\<close>

theorem cache_key_mismatch:
  "storage (snd (queryUnpaywall oa_env (Val ''doi:10.1234/abc'') sample_world))
     ''oa_cache_doi:10.1234/abc'' = None \<and>
   storage (snd (queryUnpaywall oa_env (Val ''doi:10.1234/abc'') sample_world))
     ''oa_cache_10.1234/abc'' \<noteq> None \<and>
   new_events (snd (queryUnpaywall oa_env (Val ''doi:10.1234/abc'') sample_world))
     (snd (queryUnpaywall oa_env (Val ''doi:10.1234/abc'')
        (snd (queryUnpaywall oa_env (Val ''doi:10.1234/abc'') sample_world)))) =
     [StorageGet ''oa_cache_doi:10.1234/abc'',
      FetchRegistry ''https://api.unpaywall.org/v2/10.1234%2Fabc?email=wangzifeng157@gmail.com'',
      StorageSet ''oa_cache_10.1234/abc'']"
  by (simp add: queryUnpaywall_def getCachedOAStatus_def queryUnpaywall_try_def cacheOAStatus_def
      emit_def new_events_def clean_prefixed registry_url_sample oa_env_def sample_world_def
      response_ok_def Let_def)

subsection \<open>Values the extractors return\<close>

text \<open>
  What the matcher found, read back from a successful run: a single item, a greedy and a
  lazy repetition, a literal text, and the leftmost search.
\<close>

lemma rx_run_once:
  assumes "rx_run ic (Atom c Once # rs) prev pos s g = Some r"
  shows "\<exists>x xs. s = x # xs \<and> class_ok ic c x \<and> rx_run ic rs (Some x) (Suc pos) xs g = Some r"
  using assms by (cases s) (auto split: if_splits)

lemma rx_run_greedy:
  assumes "rx_run ic (Atom c (Greedy n) # rs) prev pos s g = Some r"
  shows "\<exists>k prev'. n \<le> k \<and> k \<le> length s \<and> (\<forall>x \<in> set (take k s). class_ok ic c x) \<and>
             rx_run ic rs prev' (pos + k) (drop k s) g = Some r"
  using assms
proof (induction s arbitrary: n pos prev)
  case Nil
  then have "n = 0" "rx_run ic rs prev pos [] g = Some r"
    by (auto split: if_splits)
  then show ?case by (intro exI[of _ 0] exI[of _ prev]) simp
next
  case (Cons x xs)
  show ?case
  proof (cases "class_ok ic c x")
    case False
    with Cons.prems have "n = 0" "rx_run ic rs prev pos (x # xs) g = Some r"
      by (auto split: if_splits)
    then show ?thesis by (intro exI[of _ 0] exI[of _ prev]) simp
  next
    case True
    show ?thesis
    proof (cases "n = 0")
      case n0: True
      show ?thesis
      proof (cases "rx_run ic (Atom c (Greedy 0) # rs) (Some x) (Suc pos) xs g")
        case None
        with Cons.prems True n0 have "rx_run ic rs prev pos (x # xs) g = Some r" by simp
        then show ?thesis using n0 by (intro exI[of _ 0] exI[of _ prev]) simp
      next
        case (Some r')
        with Cons.prems True n0 have "r' = r" by simp
        with Some Cons.IH[of 0 "Some x" "Suc pos"] obtain k prev' where
          k: "k \<le> length xs" "\<forall>x \<in> set (take k xs). class_ok ic c x"
             "rx_run ic rs prev' (Suc pos + k) (drop k xs) g = Some r"
          by auto
        then show ?thesis using True n0 by (intro exI[of _ "Suc k"] exI[of _ prev']) simp
      qed
    next
      case False
      with Cons.prems True
      have "rx_run ic (Atom c (Greedy (n - 1)) # rs) (Some x) (Suc pos) xs g = Some r"
        by simp
      with Cons.IH[of "n - 1" "Some x" "Suc pos"] obtain k prev' where
        k: "n - 1 \<le> k" "k \<le> length xs" "\<forall>x \<in> set (take k xs). class_ok ic c x"
           "rx_run ic rs prev' (Suc pos + k) (drop k xs) g = Some r"
        by auto
      then show ?thesis using True False by (intro exI[of _ "Suc k"] exI[of _ prev']) auto
    qed
  qed
qed

lemma rx_run_lazy:
  assumes "rx_run ic (Atom c (Lazy n) # rs) prev pos s g = Some r"
  shows "\<exists>k prev'. k \<le> length s \<and> rx_run ic rs prev' (pos + k) (drop k s) g = Some r"
  using assms
proof (induction s arbitrary: n pos prev)
  case Nil
  then have "rx_run ic rs prev pos [] g = Some r"
    by (auto split: if_splits)
  then show ?case by (intro exI[of _ 0] exI[of _ prev]) simp
next
  case (Cons x xs)
  show ?case
  proof (cases "n = 0 \<and> rx_run ic rs prev pos (x # xs) g \<noteq> None")
    case True
    with Cons.prems have "rx_run ic rs prev pos (x # xs) g = Some r" by auto
    then show ?thesis by (intro exI[of _ 0] exI[of _ prev]) simp
  next
    case False
    with Cons.prems obtain m where
      "rx_run ic (Atom c (Lazy m) # rs) (Some x) (Suc pos) xs g = Some r"
      by (auto split: if_splits option.splits)
    with Cons.IH[of m "Some x" "Suc pos"] obtain k prev' where
      "k \<le> length xs" "rx_run ic rs prev' (Suc pos + k) (drop k xs) g = Some r"
      by auto
    then show ?thesis by (intro exI[of _ "Suc k"] exI[of _ prev']) simp
  qed
qed

lemma rx_run_lit:
  assumes "rx_run ic (lit a @ rs) prev pos s g = Some r"
  shows "\<exists>prev'. length a \<le> length s \<and>
           list_all2 (\<lambda>p x. item_ok ic (C p) x) a (take (length a) s) \<and>
           rx_run ic rs prev' (pos + length a) (drop (length a) s) g = Some r"
  using assms
proof (induction a arbitrary: prev pos s)
  case Nil
  then show ?case by (auto simp: lit_def)
next
  case (Cons p ps)
  from Cons.prems have "rx_run ic (Atom (One (C p)) Once # lit ps @ rs) prev pos s g = Some r"
    by (simp add: lit_def)
  from rx_run_once[OF this] obtain x xs where x: "s = x # xs" "item_ok ic (C p) x"
    "rx_run ic (lit ps @ rs) (Some x) (Suc pos) xs g = Some r"
    by auto
  from Cons.IH[OF x(3)] obtain prev' where "length ps \<le> length xs"
    "list_all2 (\<lambda>p x. item_ok ic (C p) x) ps (take (length ps) xs)"
    "rx_run ic rs prev' (Suc pos + length ps) (drop (length ps) xs) g = Some r"
    by blast
  then show ?case using x(1,2) by (intro exI[of _ prev']) simp
qed

lemma rx_search_found:
  assumes "rx_search ic rs prev pos s = Some (a, b, g)"
  shows "pos \<le> a \<and> a - pos \<le> length s \<and>
         (\<exists>prev'. rx_run ic rs prev' a (drop (a - pos) s) (None, None) = Some (b, g))"
  using assms
proof (induction s arbitrary: pos prev)
  case Nil
  then show ?case
    by (auto simp: rx_search.simps[of ic rs prev pos "[]"] split: option.splits prod.splits)
next
  case (Cons x xs)
  show ?case
  proof (cases "rx_run ic rs prev pos (x # xs) (None, None)")
    case (Some r)
    with Cons.prems show ?thesis
      by (auto simp: rx_search.simps[of ic rs prev pos "x # xs"] split: prod.splits)
  next
    case None
    with Cons.prems have "rx_search ic rs (Some x) (Suc pos) xs = Some (a, b, g)"
      by (simp add: rx_search.simps[of ic rs prev pos "x # xs"])
    from Cons.IH[OF this] obtain prev' where ih: "Suc pos \<le> a" "a - Suc pos \<le> length xs"
      "rx_run ic rs prev' a (drop (a - Suc pos) xs) (None, None) = Some (b, g)"
      by auto
    have "a - pos = Suc (a - Suc pos)" using ih(1) by simp
    then show ?thesis using ih by auto
  qed
qed

lemma canon_not_letter:
  assumes "rx_canon p = rx_canon x"
    and "\<not> (65 \<le> (of_char p :: nat) \<and> (of_char p :: nat) \<le> 90)"
    and "\<not> (97 \<le> (of_char p :: nat) \<and> (of_char p :: nat) \<le> 122)"
  shows "x = p"
proof -
  have cp: "rx_canon p = p"
    using assms(3) by (auto simp: rx_canon_def Let_def)
  show ?thesis
  proof (cases "97 \<le> (of_char x :: nat) \<and> (of_char x :: nat) \<le> 122")
    case False
    then have "rx_canon x = x" by (auto simp: rx_canon_def Let_def)
    then show ?thesis using assms(1) cp by simp
  next
    case True
    then have "rx_canon x = char_of ((of_char x :: nat) - 32)"
      by (simp add: rx_canon_def Let_def)
    then have "p = char_of ((of_char x :: nat) - 32)"
      using assms(1) cp by simp
    then have "(of_char p :: nat) = ((of_char x :: nat) - 32) mod 256"
      by simp
    moreover have "((of_char x :: nat) - 32) mod 256 = (of_char x :: nat) - 32"
      by (rule mod_less) (use True in linarith)
    ultimately have "(of_char p :: nat) = (of_char x :: nat) - 32"
      by simp
    then have "65 \<le> (of_char p :: nat) \<and> (of_char p :: nat) \<le> 90"
      using True by linarith
    then show ?thesis using assms(2) by simp
  qed
qed

lemma item_ok_plain:
  assumes "item_ok ic (C p) x"
    and "\<not> (65 \<le> (of_char p :: nat) \<and> (of_char p :: nat) \<le> 90)"
    and "\<not> (97 \<le> (of_char p :: nat) \<and> (of_char p :: nat) \<le> 122)"
  shows "x = p"
  using assms canon_not_letter[of p x] by (cases ic) auto


lemma lit_10_dot:
  assumes "list_all2 (\<lambda>p x. item_ok ic (C p) x) ''10.'' xs"
  shows "xs = ''10.''"
proof -
  from assms obtain a b c where xs: "xs = [a, b, c]"
    and ok: "item_ok ic (C CHR ''1'') a" "item_ok ic (C CHR ''0'') b" "item_ok ic (C CHR ''.'') c"
    by (auto simp: list_all2_Cons1)
  have "a = CHR ''1''"
    using item_ok_plain[OF ok(1)] by simp
  moreover have "b = CHR ''0''"
    using item_ok_plain[OF ok(2)] by simp
  moreover have "c = CHR ''.''"
    using item_ok_plain[OF ok(3)] by simp
  ultimately show ?thesis using xs by simp
qed

text \<open>
  The core of every DOI pattern, \<^verbatim>\<open>10\.\d{4,}\/c+\<close> for a class \<open>c\<close>: what it matches is
  \<^verbatim>\<open>10.\<close>, at least four digits, a slash and a text that is not empty.
\<close>

lemma doi_core:
  assumes "rx_run ic (lit ''10.'' @ [Atom (One D) (Greedy 4)] @ lit ''/'' @
             Atom cls (Greedy 1) # rs) prev a s g = Some r"
  shows "\<exists>ds t prev'. take (4 + length ds + length t) s = ''10.'' @ ds @ CHR ''/'' # t \<and>
           (\<forall>x \<in> set ds. is_digit x) \<and> 4 \<le> length ds \<and> t \<noteq> [] \<and>
           4 + length ds + length t \<le> length s \<and>
           rx_run ic rs prev' (a + (4 + length ds + length t))
             (drop (4 + length ds + length t) s) g = Some r"
proof -
  let ?tail = "Atom cls (Greedy 1) # rs"
  have r0: "rx_run ic (lit ''10.'' @ (Atom (One D) (Greedy 4) # lit ''/'' @ ?tail)) prev a s g =
              Some r"
    using assms by simp
  from rx_run_lit[OF r0] obtain p1 where
    "length ''10.'' \<le> length s"
    "list_all2 (\<lambda>p x. item_ok ic (C p) x) ''10.'' (take (length ''10.'') s)"
    "rx_run ic (Atom (One D) (Greedy 4) # lit ''/'' @ ?tail) p1 (a + length ''10.'')
       (drop (length ''10.'') s) g = Some r"
    by blast
  then have l3: "3 \<le> length s"
    and m3: "list_all2 (\<lambda>p x. item_ok ic (C p) x) ''10.'' (take 3 s)"
    and r3: "rx_run ic (Atom (One D) (Greedy 4) # lit ''/'' @ ?tail) p1 (a + 3) (drop 3 s) g =
               Some r"
    by (simp_all add: numeral_3_eq_3)
  have t3: "take 3 s = ''10.''"
    using lit_10_dot[OF m3] .
  from rx_run_greedy[OF r3] obtain k p2 where k: "4 \<le> k" "k \<le> length (drop 3 s)"
    "\<forall>x \<in> set (take k (drop 3 s)). class_ok ic (One D) x"
    "rx_run ic (lit ''/'' @ ?tail) p2 (a + 3 + k) (drop k (drop 3 s)) g = Some r"
    by blast
  from rx_run_lit[OF k(4)] obtain p3 where
    "length ''/'' \<le> length (drop k (drop 3 s))"
    "list_all2 (\<lambda>p x. item_ok ic (C p) x) ''/'' (take (length ''/'') (drop k (drop 3 s)))"
    "rx_run ic ?tail p3 (a + 3 + k + length ''/'') (drop (length ''/'') (drop k (drop 3 s))) g =
       Some r"
    by blast
  then have l4: "1 \<le> length (drop k (drop 3 s))"
    and m4: "list_all2 (\<lambda>p x. item_ok ic (C p) x) ''/'' (take 1 (drop k (drop 3 s)))"
    and r4: "rx_run ic ?tail p3 (a + 3 + k + 1) (drop 1 (drop k (drop 3 s))) g = Some r"
    by simp_all
  from m4 obtain c where c: "take 1 (drop k (drop 3 s)) = [c]" "item_ok ic (C CHR ''/'') c"
    by (auto simp: list_all2_Cons1)
  have t4: "take 1 (drop k (drop 3 s)) = ''/''"
    using c(1) item_ok_plain[OF c(2)] by simp
  from rx_run_greedy[OF r4] obtain k2 p4 where k2: "1 \<le> k2"
    "k2 \<le> length (drop 1 (drop k (drop 3 s)))"
    "rx_run ic rs p4 (a + 3 + k + 1 + k2) (drop k2 (drop 1 (drop k (drop 3 s)))) g = Some r"
    by blast
  let ?ds = "take k (drop 3 s)"
  let ?t = "take k2 (drop 1 (drop k (drop 3 s)))"
  have len: "length ?ds = k" "length ?t = k2"
    using k(2) k2(2) by simp_all
  have "s = take 3 s @ drop 3 s"
    by (rule append_take_drop_id[symmetric])
  also have "drop 3 s = ?ds @ drop k (drop 3 s)"
    by (rule append_take_drop_id[symmetric])
  also have "drop k (drop 3 s) = take 1 (drop k (drop 3 s)) @ drop 1 (drop k (drop 3 s))"
    by (rule append_take_drop_id[symmetric])
  also have "drop 1 (drop k (drop 3 s)) = ?t @ drop k2 (drop 1 (drop k (drop 3 s)))"
    by (rule append_take_drop_id[symmetric])
  finally have "s = take 3 s @ ?ds @ take 1 (drop k (drop 3 s)) @ ?t @
      drop k2 (drop 1 (drop k (drop 3 s)))" .
  then have shape: "s = ''10.'' @ ?ds @ CHR ''/'' # ?t @ drop k2 (drop 1 (drop k (drop 3 s)))"
    unfolding t3 t4 by simp
  have dr: "drop k2 (drop 1 (drop k (drop 3 s))) = drop (4 + k + k2) s"
    by (simp add: add.commute add.left_commute)
  have digits: "\<forall>x \<in> set ?ds. is_digit x"
    using k(3) by simp
  have tne: "?t \<noteq> []"
    using k2(1,2) len(2) by auto
  have bound: "4 + k + k2 \<le> length s"
    using k(2) k2(1,2) l3 by simp
  have run: "rx_run ic rs p4 (a + (4 + k + k2)) (drop (4 + k + k2) s) g = Some r"
    using k2(3) dr by (simp add: add.commute add.left_commute)
  define X where "X = ''10.'' @ ?ds @ CHR ''/'' # ?t"
  have sX: "s = X @ drop k2 (drop 1 (drop k (drop 3 s)))"
    using shape by (simp add: X_def)
  have lX: "length X = 4 + k + k2"
    using k(2) k2(2) by (simp add: X_def)
  have "take (length X) s = X"
    by (subst sX) simp
  then have tk: "take (4 + k + k2) s = ''10.'' @ ?ds @ CHR ''/'' # ?t"
    unfolding lX by (simp add: X_def)
  show ?thesis
    apply (rule exI[of _ ?ds], rule exI[of _ ?t], rule exI[of _ p4])
    using tk digits k(1) tne bound run len by simp
qed

lemma rx_run_digits_slash:
  assumes "\<forall>x \<in> set ds. is_digit x" and "n \<le> length ds"
  shows "rx_run ic (Atom (One D) (Greedy n) # lit ''/'') prev pos (ds @ CHR ''/'' # t) g =
           Some (pos + length ds + 1, g)"
  using assms
proof (induction ds arbitrary: n pos prev)
  case Nil
  then show ?case by (simp add: lit_def is_digit_def rx_canon_def)
next
  case (Cons d ds)
  then have d: "is_digit d" and ds: "\<forall>x \<in> set ds. is_digit x" by auto
  show ?case
  proof (cases "n = 0")
    case True
    then show ?thesis using d Cons.IH[OF ds, of 0 "Some d" "Suc pos"] by simp
  next
    case False
    then have "n - 1 \<le> length ds" using Cons.prems by simp
    then show ?thesis using d False Cons.IH[OF ds, of "n - 1" "Some d" "Suc pos"] by simp
  qed
qed

lemma valid_doi_shape:
  assumes "\<forall>x \<in> set ds. is_digit x" and "4 \<le> length ds"
  shows "is_valid_doi (''10.'' @ ds @ CHR ''/'' # t)"
proof -
  have "rx_run False valid_doi_rx None 0 (''10.'' @ ds @ CHR ''/'' # t) (None, None) =
          Some (Suc (Suc (Suc 0)) + length ds + 1, (None, None))"
    using rx_run_digits_slash[OF assms, of False "Some CHR ''.''" "Suc (Suc (Suc 0))" t
        "(None, None)"]
    by (simp add: valid_doi_rx_def lit_def)
  then show ?thesis
    unfolding is_valid_doi_def js_test_def
    by (subst rx_search.simps) simp
qed

lemma arxiv_doi_valid: "is_valid_doi (''10.48550/arXiv.'' @ x)"
  using valid_doi_shape[of "''48550''" "''arXiv.'' @ x"] by (simp add: is_digit_def)

text \<open>A capture group around the core holds exactly that text.\<close>

lemma core_group:
  assumes "rx_run ic (GroupOpen # lit ''10.'' @ [Atom (One D) (Greedy 4)] @ lit ''/'' @
             [Atom cls (Greedy 1), GroupClose]) prev a (drop a u) g0 = Some (b, g)"
    and "a \<le> length u"
  shows "\<exists>ds t. g = (Some a, Some b) \<and> substring u a b = ''10.'' @ ds @ CHR ''/'' # t \<and>
           (\<forall>x \<in> set ds. is_digit x) \<and> 4 \<le> length ds \<and> t \<noteq> []"
proof -
  have "rx_run ic (lit ''10.'' @ [Atom (One D) (Greedy 4)] @ lit ''/'' @
             Atom cls (Greedy 1) # [GroupClose]) prev a (drop a u) (Some a, snd g0) = Some (b, g)"
    using assms(1) by simp
  from doi_core[OF this] obtain ds t prev' where
    tk: "take (4 + length ds + length t) (drop a u) = ''10.'' @ ds @ CHR ''/'' # t"
    and digits: "\<forall>x \<in> set ds. is_digit x" and len: "4 \<le> length ds" and tne: "t \<noteq> []"
    and run: "rx_run ic [GroupClose] prev' (a + (4 + length ds + length t))
             (drop (4 + length ds + length t) (drop a u)) (Some a, snd g0) = Some (b, g)"
    by blast
  from run have b: "b = a + (4 + length ds + length t)" and g: "g = (Some a, Some b)"
    by auto
  have l: "b - a = 4 + length ds + length t"
    by (simp add: b)
  have sub: "substring u a b = ''10.'' @ ds @ CHR ''/'' # t"
    unfolding substring_def l by (rule tk)
  show ?thesis
    using g sub digits len tne by blast
qed

lemma springer_match_valid:
  assumes "js_match False springer_rx u = Some m"
  shows "\<exists>doi. snd m = Val doi \<and> is_valid_doi doi"
proof -
  from assms obtain a b g where found: "rx_search False springer_rx None 0 u = Some (a, b, g)"
    by (auto simp: js_match_def split: option.splits)
  from rx_search_found[OF found] obtain prev where
    run: "rx_run False springer_rx prev a (drop a u) (None, None) = Some (b, g)"
    and a: "a \<le> length u"
    by auto
  have "rx_run False (GroupOpen # lit ''10.'' @ [Atom (One D) (Greedy 4)] @ lit ''/'' @
          [Atom (NoneOf [S, C CHR ''/'']) (Greedy 1), GroupClose]) prev a (drop a u) (None, None) =
        Some (b, g)"
    using run by (simp add: springer_rx_def)
  from core_group[OF this a] obtain ds t where
    g: "g = (Some a, Some b)" and sub: "substring u a b = ''10.'' @ ds @ CHR ''/'' # t"
    and digits: "\<forall>x \<in> set ds. is_digit x" and len: "4 \<le> length ds"
    by blast
  have "snd m = Val (substring u a b)"
    using assms found g by (auto simp: js_match_def)
  then show ?thesis
    using valid_doi_shape[OF digits len, of t] sub by simp
qed

text \<open>
  So does every value \<^verbatim>\<open>extractDOIFromPDFUrl\<close> returns from its publisher pattern or its
  arXiv pattern.
\<close>

lemma extractDOIFromPDFUrl_later_patterns_valid:
  assumes "u \<noteq> []" and "js_match True doiInPath_rx u = None"
    and "js_match False springer_rx u \<noteq> None \<or> js_match True arxiv_rx u \<noteq> None"
  shows "\<exists>doi. extractDOIFromPDFUrl e (Val u) = Val doi \<and> is_valid_doi doi"
proof (cases "js_match False springer_rx u")
  case (Some m)
  then show ?thesis
    using springer_match_valid[OF Some] assms(1,2) by (simp add: extractDOIFromPDFUrl_def)
next
  case None
  then obtain m where "js_match True arxiv_rx u = Some m"
    using assms(3) by auto
  then show ?thesis
    using None assms(1,2) arxiv_doi_valid[of "render (snd m)"]
    by (simp add: extractDOIFromPDFUrl_def)
qed

lemma doi_text_match:
  assumes "js_match False doi_text_rx s = Some m"
  shows "\<exists>ds t. fst m = ''10.'' @ ds @ CHR ''/'' # t \<and> (\<forall>x \<in> set ds. is_digit x) \<and>
           4 \<le> length ds \<and> t \<noteq> []"
proof -
  from assms obtain a b g where found: "rx_search False doi_text_rx None 0 s = Some (a, b, g)"
    by (auto simp: js_match_def split: option.splits)
  from rx_search_found[OF found] obtain prev where
    run: "rx_run False doi_text_rx prev a (drop a s) (None, None) = Some (b, g)"
    by auto
  have "rx_run False (lit ''10.'' @ [Atom (One D) (Greedy 4)] @ lit ''/'' @
          Atom (NoneOf [S]) (Greedy 1) # []) prev a (drop a s) (None, None) = Some (b, g)"
    using run by (simp add: doi_text_rx_def)
  from doi_core[OF this] obtain ds t prev' where
    tk: "take (4 + length ds + length t) (drop a s) = ''10.'' @ ds @ CHR ''/'' # t"
    and digits: "\<forall>x \<in> set ds. is_digit x" and len: "4 \<le> length ds" and tne: "t \<noteq> []"
    and fin: "rx_run False [] prev' (a + (4 + length ds + length t))
             (drop (4 + length ds + length t) (drop a s)) (None, None) = Some (b, g)"
    by blast
  from fin have b: "b - a = 4 + length ds + length t"
    by auto
  have "fst m = substring s a b"
    using assms found by (auto simp: js_match_def)
  then have "fst m = ''10.'' @ ds @ CHR ''/'' # t"
    unfolding substring_def b using tk by simp
  then show ?thesis
    using digits len tne by blast
qed

lemma remove_trailing:
  "js_remove_first ic [Atom cls Once, Eol] s = s \<or>
   (s \<noteq> [] \<and> js_remove_first ic [Atom cls Once, Eol] s = butlast s)"
proof (cases "rx_search ic [Atom cls Once, Eol] None 0 s")
  case None
  then show ?thesis by (simp add: js_remove_first_def)
next
  case (Some r)
  obtain a b g where r: "r = (a, b, g)" by (cases r)
  from rx_search_found[OF Some[unfolded r]] obtain prev where
    a: "a \<le> length s"
    and run: "rx_run ic [Atom cls Once, Eol] prev a (drop a s) (None, None) = Some (b, g)"
    by auto
  from rx_run_once[OF run] obtain x xs where x: "drop a s = x # xs"
    and e: "rx_run ic [Eol] (Some x) (Suc a) xs (None, None) = Some (b, g)"
    by blast
  from e have xs: "xs = []" and b: "b = Suc a"
    by (auto split: if_splits)
  have "length (drop a s) = 1"
    using x xs by simp
  then have la: "length s = Suc a"
    by simp
  then have ne: "s \<noteq> []" by auto
  have "take a s @ drop b s = butlast s"
    using la b by (simp add: butlast_conv_take)
  then show ?thesis
    using Some r ne by (simp add: js_remove_first_def)
qed

lemma remove_trailing_valid:
  assumes "\<forall>x \<in> set ds. is_digit x" and "4 \<le> length ds" and "t \<noteq> []"
  shows "is_valid_doi (js_remove_first ic [Atom cls Once, Eol] (''10.'' @ ds @ CHR ''/'' # t))"
proof -
  have "butlast (''10.'' @ ds @ CHR ''/'' # t) = ''10.'' @ ds @ CHR ''/'' # butlast t"
    using assms(3) by (simp add: butlast_append)
  then show ?thesis
    using remove_trailing[of ic cls "''10.'' @ ds @ CHR ''/'' # t"]
      valid_doi_shape[OF assms(1,2), of t] valid_doi_shape[OF assms(1,2), of "butlast t"]
    by auto
qed

lemma meta_doi_valid: "meta_doi m = Some doi \<Longrightarrow> is_valid_doi doi"
  by (auto simp: meta_doi_def Let_def split: option.splits if_splits)

lemma jsonld_doi_valid: "jsonld_doi scripts = Some doi \<Longrightarrow> is_valid_doi doi"
proof (induction scripts)
  case Nil
  then show ?case by simp
next
  case (Cons s scripts)
  then show ?case
    by (cases s) (auto split: sum.splits option.splits if_splits)
qed

lemma element_doi_valid: "element_doi texts = Some doi \<Longrightarrow> is_valid_doi doi"
proof (induction texts)
  case Nil
  then show ?case by simp
next
  case (Cons tx texts)
  show ?case
  proof (cases "js_match False doi_text_rx (trim tx)")
    case None
    then show ?thesis using Cons by simp
  next
    case (Some m)
    from doi_text_match[OF Some] obtain ds t where
      "fst m = ''10.'' @ ds @ CHR ''/'' # t" "\<forall>x \<in> set ds. is_digit x" "4 \<le> length ds" "t \<noteq> []"
      by blast
    then show ?thesis
      using Cons.prems Some remove_trailing_valid[of ds t False "AnyOf [C CHR '','', C CHR '';'']"]
      by (simp add: trailing_rx_def)
  qed
qed

text \<open>The same when the group follows a prefix of the pattern that consumed \<open>j\<close> characters.\<close>

lemma group_after_prefix:
  assumes "rx_search ic rs None 0 u = Some (a, b, g)"
    and "js_match ic rs u = Some m"
    and "rx_run ic (GroupOpen # lit ''10.'' @ [Atom (One D) (Greedy 4)] @ lit ''/'' @
             [Atom cls (Greedy 1), GroupClose]) prev (a + j) (drop j (drop a u)) g0 = Some (b, g)"
    and "a + j \<le> length u"
  shows "\<exists>ds t. snd m = Val (''10.'' @ ds @ CHR ''/'' # t) \<and> (\<forall>x \<in> set ds. is_digit x) \<and>
           4 \<le> length ds \<and> t \<noteq> []"
proof -
  have "drop j (drop a u) = drop (a + j) u"
    by (simp add: add.commute)
  with assms(3) have "rx_run ic (GroupOpen # lit ''10.'' @ [Atom (One D) (Greedy 4)] @ lit ''/'' @
             [Atom cls (Greedy 1), GroupClose]) prev (a + j) (drop (a + j) u) g0 = Some (b, g)"
    by simp
  from core_group[OF this assms(4)] obtain ds t where
    g: "g = (Some (a + j), Some b)"
    and sub: "substring u (a + j) b = ''10.'' @ ds @ CHR ''/'' # t"
    and rest: "\<forall>x \<in> set ds. is_digit x" "4 \<le> length ds" "t \<noteq> []"
    by blast
  have "snd m = Val (substring u (a + j) b)"
    using assms(1,2) g by (auto simp: js_match_def)
  then show ?thesis
    using sub rest by auto
qed

lemma doi_link_match:
  assumes "js_match False doi_link_rx u = Some m"
  shows "\<exists>ds t. snd m = Val (''10.'' @ ds @ CHR ''/'' # t) \<and> (\<forall>x \<in> set ds. is_digit x) \<and>
           4 \<le> length ds \<and> t \<noteq> []"
proof -
  let ?core = "GroupOpen # lit ''10.'' @ [Atom (One D) (Greedy 4)] @ lit ''/'' @
             [Atom (NoneOf [S]) (Greedy 1), GroupClose]"
  from assms obtain a b g where found: "rx_search False doi_link_rx None 0 u = Some (a, b, g)"
    by (auto simp: js_match_def split: option.splits)
  from rx_search_found[OF found] obtain prev where
    run: "rx_run False doi_link_rx prev a (drop a u) (None, None) = Some (b, g)"
    and a: "a \<le> length u"
    by auto
  have "rx_run False (lit ''doi.org/'' @ ?core) prev a (drop a u) (None, None) = Some (b, g)"
    using run by (simp add: doi_link_rx_def)
  from rx_run_lit[OF this] obtain prev' where
    l: "length ''doi.org/'' \<le> length (drop a u)"
    and r: "rx_run False ?core prev' (a + length ''doi.org/'') (drop (length ''doi.org/'') (drop a u))
              (None, None) = Some (b, g)"
    by blast
  have "a + length ''doi.org/'' \<le> length u"
    using l a by simp
  from group_after_prefix[OF found assms r this] show ?thesis .
qed

lemma link_doi_valid: "link_doi hrefs = Some doi \<Longrightarrow> is_valid_doi doi"
proof (induction hrefs)
  case Nil
  then show ?case by simp
next
  case (Cons href hrefs)
  show ?case
  proof (cases "js_match False doi_link_rx href")
    case None
    then show ?thesis using Cons by simp
  next
    case (Some m)
    from doi_link_match[OF Some] obtain ds t where
      "snd m = Val (''10.'' @ ds @ CHR ''/'' # t)" "\<forall>x \<in> set ds. is_digit x" "4 \<le> length ds"
      by blast
    then show ?thesis
      using Cons.prems Some valid_doi_shape[of ds t] by simp
  qed
qed

lemma rx_run_alt2:
  assumes "rx_run ic (Alt [x, y] # rs) prev pos s g = Some r"
    and "length x = n" and "length y = n"
  shows "\<exists>prev'. n \<le> length s \<and> rx_run ic rs prev' (pos + n) (drop n s) g = Some r"
proof -
  from assms(1) consider "rx_run ic (lit x @ rs) prev pos s g = Some r"
    | "rx_run ic (lit y @ rs) prev pos s g = Some r"
    by (auto split: option.splits)
  then show ?thesis
  proof cases
    case 1
    from rx_run_lit[OF 1] show ?thesis using assms(2) by auto
  next
    case 2
    from rx_run_lit[OF 2] show ?thesis using assms(3) by auto
  qed
qed

lemma labelled_doi_match:
  assumes "js_match True labelled_doi_rx u = Some m"
  shows "\<exists>ds t. snd m = Val (''10.'' @ ds @ CHR ''/'' # t) \<and> (\<forall>x \<in> set ds. is_digit x) \<and>
           4 \<le> length ds \<and> t \<noteq> []"
proof -
  let ?core = "GroupOpen # lit ''10.'' @ [Atom (One D) (Greedy 4)] @ lit ''/'' @
             [Atom (NoneOf [S, C CHR '','', C CHR '';'']) (Greedy 1), GroupClose]"
  let ?sep = "Atom (AnyOf [S, C CHR '':'']) (Lazy 1)"
  from assms obtain a b g where found: "rx_search True labelled_doi_rx None 0 u = Some (a, b, g)"
    by (auto simp: js_match_def split: option.splits)
  from rx_search_found[OF found] obtain prev where
    run: "rx_run True labelled_doi_rx prev a (drop a u) (None, None) = Some (b, g)"
    and a: "a \<le> length u"
    by auto
  have "rx_run True (WordB # Alt [''DOI'', ''doi''] # ?sep # ?core) prev a (drop a u) (None, None) =
          Some (b, g)"
    using run by (simp add: labelled_doi_rx_def)
  then have "rx_run True (Alt [''DOI'', ''doi''] # ?sep # ?core) prev a (drop a u) (None, None) =
          Some (b, g)"
    by (simp split: if_splits)
  from rx_run_alt2[OF this, of 3] obtain p1 where
    l1: "3 \<le> length (drop a u)"
    and r1: "rx_run True (?sep # ?core) p1 (a + 3) (drop 3 (drop a u)) (None, None) = Some (b, g)"
    by auto
  from rx_run_lazy[OF r1] obtain k p2 where k: "k \<le> length (drop 3 (drop a u))"
    and r2: "rx_run True ?core p2 (a + 3 + k) (drop k (drop 3 (drop a u))) (None, None) = Some (b, g)"
    by blast
  have d: "drop k (drop 3 (drop a u)) = drop (3 + k) (drop a u)"
    by (simp add: ac_simps)
  have r3: "rx_run True ?core p2 (a + (3 + k)) (drop (3 + k) (drop a u)) (None, None) = Some (b, g)"
    using r2 d by (simp add: add.assoc)
  have "a + (3 + k) \<le> length u"
    using l1 k a by simp
  from group_after_prefix[OF found assms r3 this] show ?thesis .
qed

lemma body_doi_valid: "body_doi text = Some doi \<Longrightarrow> is_valid_doi doi"
proof -
  assume h: "body_doi text = Some doi"
  then obtain m where m: "js_match True labelled_doi_rx text = Some m"
    and doi: "doi = js_remove_first False trailing_dot_rx (render (snd m))"
    by (auto simp: body_doi_def split: option.splits)
  from labelled_doi_match[OF m] obtain ds t where
    "snd m = Val (''10.'' @ ds @ CHR ''/'' # t)" "\<forall>x \<in> set ds. is_digit x" "4 \<le> length ds" "t \<noteq> []"
    by blast
  then show ?thesis
    using doi remove_trailing_valid[of ds t False "AnyOf [C CHR '','', C CHR '';'', C CHR ''.'']"]
    by (simp add: trailing_dot_rx_def)
qed

lemma arxiv_doi_valid_page: "arxiv_doi href meta = Some doi \<Longrightarrow> is_valid_doi doi"
  using arxiv_doi_valid
  by (auto simp: arxiv_doi_def split: option.splits if_splits)

text \<open>
  Every value \<^verbatim>\<open>extractDOINonDestructive\<close> returns matches \<^verbatim>\<open>/^10\.\d{4,}\//\<close>: strategies 1
  to 3 test it, strategies 4 to 6 return what a pattern around the core matched, less one
  closing punctuation mark, and strategy 7 builds it.
\<close>

lemma extractDOINonDestructive_valid:
  assumes "extractDOINonDestructive doc = Some doi"
  shows "is_valid_doi doi"
  using assms meta_doi_valid jsonld_doi_valid element_doi_valid link_doi_valid body_doi_valid
    arxiv_doi_valid_page
  by (auto simp: extractDOINonDestructive_def split: option.splits)

lemma bad_path: "js_match True doiInPath_rx ''https://example.com/1.2345/x.pdf'' =
    Some (''/1.2345/x.pdf'', Val ''1.2345/x'')"
  by code_simp

lemma bad_path_invalid: "\<not> is_valid_doi ''1.2345/x''"
  by code_simp

lemma hello_invalid: "\<not> is_valid_doi ''hello''"
  by code_simp

lemma param_url_no_match:
  "js_match True doiInPath_rx ''https://example.com/paper.pdf?doi=hello'' = None"
  "js_match False springer_rx ''https://example.com/paper.pdf?doi=hello'' = None"
  "js_match True arxiv_rx ''https://example.com/paper.pdf?doi=hello'' = None"
  by code_simp+

text \<open>
  C7. The claim holds for the page extractor and for two of the four strategies of
  \<^verbatim>\<open>extractDOIFromPDFUrl\<close> (the lemmas above), and fails for the other two, which
  validate nothing. The first pattern starts with the class \<^verbatim>\<open>[10]\<close>, one character, so
  on \<^verbatim>\<open>https://example.com/1.2345/x.pdf\<close> the extractor returns \<^verbatim>\<open>1.2345/x\<close>; and the
  value of the query parameter \<^verbatim>\<open>doi\<close> is returned as it is, here \<^verbatim>\<open>hello\<close>. Neither
  matches \<^verbatim>\<open>/^10\.\d{4,}\//\<close>.
\<close>

theorem extractDOIFromPDFUrl_unvalidated:
  "extractDOIFromPDFUrl e (Val ''https://example.com/1.2345/x.pdf'') = Val ''1.2345/x'' \<and>
   \<not> is_valid_doi ''1.2345/x'' \<and>
   extractDOIFromPDFUrl timeout_env (Val ''https://example.com/paper.pdf?doi=hello'') =
     Val ''hello'' \<and>
   \<not> is_valid_doi ''hello''"
  by (simp add: extractDOIFromPDFUrl_def bad_path bad_path_invalid hello_invalid
      param_url_no_match timeout_env_def sample_new_URL_def)

end
